theory Spec2Isabelle
  imports Complex_Main "HOL-Library.Word"
begin

section \<open>Data model of the segment upload pipeline\<close>

text \<open>
  The embedding follows \<^verbatim>\<open>package storageclient\<close> (segment upload) and
  \<^verbatim>\<open>package filesystem\<close> (the disrupters). Go \<^verbatim>\<open>uint64\<close> is a 64-bit word,
  a Go \<^verbatim>\<open>int\<close> is an \<open>int\<close> with the 64-bit wrap-around written out where a sum is
  formed from unbounded inputs, a \<^verbatim>\<open>nil\<close> slice is the empty list, and a runtime
  panic is the left summand of the result.
\<close>

type_synonym byte = "8 word"
type_synonym uint64 = "64 word"

text \<open>A \<^verbatim>\<open>*worker\<close> is an address into the worker store.\<close>

type_synonym wptr = nat

datatype panic = IndexOutOfRange | IntegerDivideByZero

record uploadSegmentID =
  fid :: nat
  index :: nat

text \<open>
  Modelled from the spec: the worker type is not part of the sources at hand. The spec
  gives a worker a readiness state and a mapping from segment to the list of sector
  indices it has been asked to upload; \<open>ready\<close> is what \<^verbatim>\<open>isReady(uc)\<close> answers.
  The map \<^verbatim>\<open>sectorIndexMap\<close> is keyed by the segment, here by its id.
\<close>

record worker =
  ready :: bool
  sectorIndexMap :: "uploadSegmentID \<rightharpoonup> int list"

text \<open>
  \<^verbatim>\<open>unfinishedUploadSegment\<close>, with \<open>segid\<close> for its field \<^verbatim>\<open>id\<close>, and
  \<open>segIndex\<close> and \<open>segLength\<close> for its fields \<^verbatim>\<open>index\<close> and \<^verbatim>\<open>length\<close>
  (the segment's index in the file and its length in bytes). The fields
  \<^verbatim>\<open>threadUID\<close>, \<^verbatim>\<open>unusedHosts\<close> and the mutex are not read by the functions
  embedded below; \<^verbatim>\<open>offset\<close> is only handed to the read of the local file and to
  the repair download, and what those and the file entry answer is part of \<open>env\<close>.
\<close>

record unfinishedUploadSegment =
  segid :: uploadSegmentID
  segIndex :: uint64
  segLength :: uint64
  memoryNeeded :: uint64
  memoryReleased :: uint64
  sectorsMinNeedNum :: int
  sectorsAllNeedNum :: int
  stuck :: bool
  stuckRepair :: bool
  logicalSegmentData :: "byte list list"
  physicalSegmentData :: "byte list list"
  sectorSlotsStatus :: "bool list"
  sectorsCompletedNum :: int
  sectorsUploadingNum :: int
  released :: bool
  workersRemain :: int
  workerBackups :: "wptr list"

subsection \<open>The completion predicate\<close>

definition IsSegmentUploadComplete :: "unfinishedUploadSegment \<Rightarrow> bool" where
  "IsSegmentUploadComplete uc =
     (if sectorsCompletedNum uc = sectorsAllNeedNum uc \<and> sectorsUploadingNum uc = 0 then True
      else if workersRemain uc = 0 \<and> sectorsUploadingNum uc = 0 then True
      else False)"

subsection \<open>Go integer arithmetic\<close>

text \<open>
  A sum of Go \<^verbatim>\<open>int\<close>s wraps around at 64 bits; \<^verbatim>\<open>%\<close> truncates towards zero,
  so its result has the sign of the dividend.
\<close>

definition wrapInt64 :: "int \<Rightarrow> int" where
  "wrapInt64 x = (x + 2 ^ 63) mod 2 ^ 64 - 2 ^ 63"

definition goRem :: "int \<Rightarrow> int \<Rightarrow> int" where
  "goRem a b = sgn a * (\<bar>a\<bar> mod \<bar>b\<bar>)"

subsection \<open>Go float64 arithmetic\<close>

text \<open>
  A \<^verbatim>\<open>float64\<close> is a rational of the binary64 grid, an infinity or not a number;
  every operation rounds the exact result to the nearest grid point, ties to the even
  significand (53 bits, exponents from \<open>-1022\<close> to \<open>1023\<close>, subnormals below), and
  overflows to an infinity. Signed zeros are not told apart: multiplication, comparison
  and conversion to \<^verbatim>\<open>int\<close> do not depend on the sign of a zero. A constant
  expression such as \<^verbatim>\<open>1 - RemoteRepairDownloadThreshold\<close> is computed exactly and
  rounded once, where it meets a \<^verbatim>\<open>float64\<close> operand.
\<close>

datatype float64 = Finite rat | PosInf | NegInf | NaN

function bitlen :: "int \<Rightarrow> int" where
  "bitlen n = (if n \<le> 0 then 0 else 1 + bitlen (n div 2))"
  by pat_completeness auto
termination
  by (relation "measure nat") auto

declare bitlen.simps [simp del]

definition pow2 :: "int \<Rightarrow> rat" where
  "pow2 k = (if 0 \<le> k then 2 ^ nat k else 1 / 2 ^ nat (- k))"

text \<open>\<open>ilog2 q\<close> is the exponent \<open>k\<close> with \<open>2 ^ k \<le> q < 2 ^ (k + 1)\<close>, for \<open>q > 0\<close>.\<close>

definition ilog2 :: "rat \<Rightarrow> int" where
  "ilog2 q = (case quotient_of q of (p, d) \<Rightarrow>
     let k = bitlen p - bitlen d in if pow2 k \<le> q then k else k - 1)"

definition roundHalfEven :: "rat \<Rightarrow> int" where
  "roundHalfEven q = (let f = \<lfloor>q\<rfloor>; r = q - of_int f in
      if r < 1 / 2 then f else if 1 / 2 < r then f + 1 else if even f then f else f + 1)"

definition roundFloat64 :: "rat \<Rightarrow> float64" where
  "roundFloat64 q = (if q = 0 then Finite 0 else
     let e = max (ilog2 \<bar>q\<bar>) (- 1022);
         ulp = pow2 (e - 52);
         m = of_int (roundHalfEven (q / ulp)) * ulp
     in if m = 0 then Finite 0
        else if 1024 \<le> ilog2 \<bar>m\<bar> then (if 0 < m then PosInf else NegInf)
        else Finite m)"

fun mulFloat64 :: "float64 \<Rightarrow> float64 \<Rightarrow> float64" where
  "mulFloat64 (Finite a) (Finite b) = roundFloat64 (a * b)"
| "mulFloat64 NaN y = NaN"
| "mulFloat64 x NaN = NaN"
| "mulFloat64 PosInf (Finite b) = (if b = 0 then NaN else if 0 < b then PosInf else NegInf)"
| "mulFloat64 NegInf (Finite b) = (if b = 0 then NaN else if 0 < b then NegInf else PosInf)"
| "mulFloat64 (Finite a) PosInf = (if a = 0 then NaN else if 0 < a then PosInf else NegInf)"
| "mulFloat64 (Finite a) NegInf = (if a = 0 then NaN else if 0 < a then NegInf else PosInf)"
| "mulFloat64 PosInf PosInf = PosInf"
| "mulFloat64 PosInf NegInf = NegInf"
| "mulFloat64 NegInf PosInf = NegInf"
| "mulFloat64 NegInf NegInf = PosInf"

fun leFloat64 :: "float64 \<Rightarrow> float64 \<Rightarrow> bool" where
  "leFloat64 (Finite a) (Finite b) = (a \<le> b)"
| "leFloat64 NaN y = False"
| "leFloat64 x NaN = False"
| "leFloat64 NegInf y = True"
| "leFloat64 x PosInf = True"
| "leFloat64 PosInf y = False"
| "leFloat64 x NegInf = False"

text \<open>\<^verbatim>\<open>float64(n)\<close> of a Go \<^verbatim>\<open>int\<close>.\<close>

definition float64_of_int :: "int \<Rightarrow> float64" where
  "float64_of_int n = roundFloat64 (of_int n)"

text \<open>
  \<^verbatim>\<open>int(x)\<close> of a \<^verbatim>\<open>float64\<close> drops the fraction. Where the result does not fit
  into 64 bits the language leaves the value to the implementation; amd64 gives the
  smallest \<^verbatim>\<open>int\<close>.
\<close>

definition int_of_float64 :: "float64 \<Rightarrow> int" where
  "int_of_float64 x =
     (case x of
        Finite q \<Rightarrow>
          (let t = (if 0 \<le> q then \<lfloor>q\<rfloor> else \<lceil>q\<rceil>)
           in if - (2 ^ 63) \<le> t \<and> t < 2 ^ 63 then t else - (2 ^ 63))
      | PosInf \<Rightarrow> - (2 ^ 63)
      | NegInf \<Rightarrow> - (2 ^ 63)
      | NaN \<Rightarrow> - (2 ^ 63))"

subsection \<open>The storage client and what it calls\<close>

text \<open>
  Calls into collaborators that are not part of the sources at hand (memory manager,
  file entry, file system, workers' channels, the stuck loop's channel, the log of
  the memory sanity check) are recorded, in order, as events.
\<close>

datatype event =
    MemoryReturn uint64
  | SignalUploadChan wptr
  | SetStuckByIndex int bool
  | InitAndUpdateDirMetadata
  | StuckSegmentSuccess
  | FileEntryClose
  | PendingDelete uploadSegmentID
  | EncodeCall "byte list"
  | LogMemoryNotReleased

text \<open>
  \<open>workerPool\<close> lists the values of the \<^verbatim>\<open>sc.workerPool\<close> map in the order the
  \<^verbatim>\<open>range\<close> of \<^verbatim>\<open>dispatchSegment\<close> visits them; \<open>workers\<close> is the store the
  \<^verbatim>\<open>*worker\<close> pointers point into.
\<close>

record StorageClient =
  pendingSegments :: "uploadSegmentID set"
  workerPool :: "wptr list"
  workers :: "wptr \<Rightarrow> worker"
  events :: "event list"

text \<open>
  What the collaborators and the constants declared elsewhere answer during one run.
  \<open>SectorSize\<close> is \<^verbatim>\<open>storage.SectorSize\<close>, \<open>fileSectorSize\<close> is
  \<^verbatim>\<open>fileEntry.SectorSize()\<close>, \<open>MinSectors\<close> is \<^verbatim>\<open>ErasureCode().MinSectors()\<close>,
  \<open>RemoteRepairDownloadThreshold\<close> is the value of the constant of that name.
  \<open>tmAddFails\<close> says that \<^verbatim>\<open>sc.tm.Add()\<close> returns an error. \<open>localPath\<close> is
  \<^verbatim>\<open>fileEntry.LocalPath()\<close>, \<open>openFails\<close> says that \<^verbatim>\<open>os.Open\<close> returns an
  error, \<open>readOutcome\<close> is the error of \<^verbatim>\<open>buf.ReadFrom\<close> and \<open>readBuffer\<close> the
  buffer it has filled. \<open>numSegments\<close> is \<^verbatim>\<open>fileEntry.NumSegments()\<close> and
  \<open>fileSize\<close> is \<^verbatim>\<open>fileEntry.FileSize()\<close>. \<open>downloadResult\<close> is the outcome of the
  repair download of the given length: the error of \<^verbatim>\<open>newDownload\<close>, the stop
  call, the error of the download, or the downloaded buffer. \<open>encodeResult\<close> gives the sectors \<^verbatim>\<open>Encode\<close> returns and
  whether it returns an error, \<open>encryptResult\<close> the cipher text or \<open>None\<close> for an
  error. \<open>clientOffline\<close> says that the stop channel is closed or the client is not
  online, \<open>stopBeforeSignal\<close> that the final select takes the stop channel.
\<close>

datatype readOutcome = ReadComplete | ReadEOF | ReadUnexpectedEOF | ReadError

datatype retrieveError =
    FileNotAvailableLocally
  | FailedToOpenFileLocally
  | FailedToReadFileLocally
  | NewDownloadFailed
  | DownloadInterrupted
  | DownloadFailed

record env =
  SectorSize :: uint64
  fileSectorSize :: uint64
  MinSectors :: int
  RemoteRepairDownloadThreshold :: rat
  tmAddFails :: bool
  localPath :: string
  openFails :: bool
  readOutcome :: readOutcome
  readBuffer :: "byte list list"
  numSegments :: int
  fileSize :: uint64
  downloadResult :: "uint64 \<Rightarrow> retrieveError + byte list list"
  encodeResult :: "byte list \<Rightarrow> byte list list \<times> bool"
  encryptResult :: "byte list \<Rightarrow> byte list option"
  clientOffline :: bool
  stopBeforeSignal :: bool

definition addEvents :: "event list \<Rightarrow> StorageClient \<Rightarrow> StorageClient" where
  "addEvents es sc = sc\<lparr>events := events sc @ es\<rparr>"

subsection \<open>Assigning sectors to workers\<close>

text \<open>
  One round of the loop of \<^verbatim>\<open>randomAssignSectorTaskToWorker\<close> for slot \<open>i\<close>;
  \<open>rnd i\<close> is what \<^verbatim>\<open>rand.Int()\<close> returns in that round. The remainder is taken
  before the slot is looked at, so an empty worker list panics for any slot. The
  index into \<^verbatim>\<open>workers\<close> is only evaluated for a free slot.
\<close>

definition assignSlot ::
  "wptr list \<Rightarrow> (nat \<Rightarrow> int) \<Rightarrow> nat \<Rightarrow> (wptr \<Rightarrow> worker) \<times> unfinishedUploadSegment
     \<Rightarrow> panic + (wptr \<Rightarrow> worker) \<times> unfinishedUploadSegment" where
  "assignSlot ws rnd i st = (case st of (store, uc) \<Rightarrow>
     if length ws = 0 then Inl IntegerDivideByZero
     else
       let workerIndex = goRem (wrapInt64 (int i + rnd i)) (int (length ws)) in
       if sectorSlotsStatus uc ! i then Inr st
       else if workerIndex < 0 then Inl IndexOutOfRange
       else
         let p = ws ! nat workerIndex; w = store p in
         if ready w then
           Inr (store(p := w\<lparr>sectorIndexMap := (sectorIndexMap w)(segid uc \<mapsto>
                    (case sectorIndexMap w (segid uc) of
                       Some indexes \<Rightarrow> indexes @ [int i]
                     | None \<Rightarrow> [int i]))\<rparr>),
                uc\<lparr>sectorSlotsStatus := (sectorSlotsStatus uc)[i := True]\<rparr>)
         else Inr st)"

fun assignLoop ::
  "wptr list \<Rightarrow> (nat \<Rightarrow> int) \<Rightarrow> nat list \<Rightarrow> (wptr \<Rightarrow> worker) \<times> unfinishedUploadSegment
     \<Rightarrow> panic + (wptr \<Rightarrow> worker) \<times> unfinishedUploadSegment" where
  "assignLoop ws rnd [] st = Inr st"
| "assignLoop ws rnd (i # is) st =
     (case assignSlot ws rnd i st of Inl e \<Rightarrow> Inl e | Inr st' \<Rightarrow> assignLoop ws rnd is st')"

definition randomAssignSectorTaskToWorker ::
  "wptr list \<Rightarrow> (nat \<Rightarrow> int) \<Rightarrow> (wptr \<Rightarrow> worker) \<times> unfinishedUploadSegment
     \<Rightarrow> panic + (wptr \<Rightarrow> worker) \<times> unfinishedUploadSegment" where
  "randomAssignSectorTaskToWorker ws rnd st =
     assignLoop ws rnd [0 ..< length (sectorSlotsStatus (snd st))] st"

definition notifyBackupWorkers ::
  "(nat \<Rightarrow> int) \<Rightarrow> StorageClient \<times> unfinishedUploadSegment
     \<Rightarrow> panic + StorageClient \<times> unfinishedUploadSegment" where
  "notifyBackupWorkers rnd st = (case st of (sc, uc) \<Rightarrow>
     let backupWorkers = workerBackups uc;
         uc1 = uc\<lparr>workerBackups := []\<rparr>
     in case randomAssignSectorTaskToWorker backupWorkers rnd (workers sc, uc1) of
          Inl e \<Rightarrow> Inl e
        | Inr (store, uc2) \<Rightarrow>
            Inr (addEvents (map SignalUploadChan backupWorkers) (sc\<lparr>workers := store\<rparr>), uc2))"

definition dispatchSegment ::
  "(nat \<Rightarrow> int) \<Rightarrow> StorageClient \<times> unfinishedUploadSegment
     \<Rightarrow> panic + StorageClient \<times> unfinishedUploadSegment" where
  "dispatchSegment rnd st = (case st of (sc, uc) \<Rightarrow>
     let sc1 = sc\<lparr>pendingSegments := insert (segid uc) (pendingSegments sc)\<rparr>;
         uc1 = uc\<lparr>workersRemain := wrapInt64 (workersRemain uc + int (length (workerPool sc)))\<rparr>;
         ws = workerPool sc
     in case randomAssignSectorTaskToWorker ws rnd (workers sc1, uc1) of
          Inl e \<Rightarrow> Inl e
        | Inr (store, uc2) \<Rightarrow>
            Inr (addEvents (map SignalUploadChan ws) (sc1\<lparr>workers := store\<rparr>), uc2))"

subsection \<open>The stuck status\<close>

definition successfulRepair :: "rat \<Rightarrow> int \<Rightarrow> int \<Rightarrow> bool" where
  "successfulRepair threshold sectorsNeedNum sectorsCompleteNum =
     leFloat64 (mulFloat64 (roundFloat64 (1 - threshold)) (float64_of_int sectorsNeedNum))
       (float64_of_int sectorsCompleteNum)"

text \<open>
  \<^verbatim>\<open>updateUploadSegmentStuckStatus\<close>: the segment is only read; the effects are the
  calls it makes. \<^verbatim>\<open>int(index)\<close> of the \<^verbatim>\<open>uint64\<close> index is the index itself
  below \<open>2 ^ 63\<close>.
\<close>

definition updateUploadSegmentStuckStatus ::
  "env \<Rightarrow> StorageClient \<Rightarrow> unfinishedUploadSegment \<Rightarrow> StorageClient" where
  "updateUploadSegmentStuckStatus e sc uc =
     (let ok = successfulRepair (RemoteRepairDownloadThreshold e)
                 (sectorsAllNeedNum uc) (sectorsCompletedNum uc)
      in if \<not> ok \<and> clientOffline e then sc
         else
           let sc1 = addEvents [SetStuckByIndex (wrapInt64 (int (index (segid uc)))) (\<not> ok),
                                InitAndUpdateDirMetadata] sc
           in if stuck uc \<and> ok \<and> stuckRepair uc then
                (if stopBeforeSignal e then sc1 else addEvents [StuckSegmentSuccess] sc1)
              else sc1)"

subsection \<open>Cleanup\<close>

text \<open>
  One round of the first loop of \<^verbatim>\<open>cleanupUploadSegment\<close>, for slot \<open>i\<close>, on the
  segment and the two locals \<^verbatim>\<open>sectorsAvailable\<close> and \<^verbatim>\<open>memoryReleased\<close>. The
  assignment \<^verbatim>\<open>uc.physicalSegmentData[i] = nil\<close> panics when \<open>i\<close> is not an index of
  that slice.
\<close>

definition trimSlot ::
  "uint64 \<Rightarrow> nat \<Rightarrow> unfinishedUploadSegment \<times> int \<times> uint64
     \<Rightarrow> panic + unfinishedUploadSegment \<times> int \<times> uint64" where
  "trimSlot sectorSize i st = (case st of (uc, sectorsAvailable, memRel) \<Rightarrow>
     if sectorSlotsStatus uc ! i then Inr st
     else if sectorsAvailable \<ge> workersRemain uc then
       (if i < length (physicalSegmentData uc) then
          Inr (uc\<lparr>physicalSegmentData := (physicalSegmentData uc)[i := []],
                   sectorSlotsStatus := (sectorSlotsStatus uc)[i := True]\<rparr>,
               sectorsAvailable, memRel + sectorSize)
        else Inl IndexOutOfRange)
     else Inr (uc, sectorsAvailable + 1, memRel))"

fun trimLoop ::
  "uint64 \<Rightarrow> nat list \<Rightarrow> unfinishedUploadSegment \<times> int \<times> uint64
     \<Rightarrow> panic + unfinishedUploadSegment \<times> int \<times> uint64" where
  "trimLoop sectorSize [] st = Inr st"
| "trimLoop sectorSize (i # is) st =
     (case trimSlot sectorSize i st of Inl e \<Rightarrow> Inl e | Inr st' \<Rightarrow> trimLoop sectorSize is st')"

definition trimSlots ::
  "uint64 \<Rightarrow> unfinishedUploadSegment \<Rightarrow> panic + unfinishedUploadSegment \<times> int \<times> uint64" where
  "trimSlots sectorSize uc =
     trimLoop sectorSize [0 ..< length (sectorSlotsStatus uc)] (uc, 0, 0)"

text \<open>
  \<^verbatim>\<open>cleanupUploadSegment\<close> in its three parts. \<open>markReleased\<close> is the end of the
  locked section: the released flag and the memory counter. \<open>finishCleanup\<close> is what
  follows the notification of the backup workers: the return of the memory, the release
  (stuck status, close of the file entry, removal from the pending set) and the sanity
  check. \<open>rnd\<close> feeds the assignment round of \<^verbatim>\<open>notifyBackupWorkers\<close>.
\<close>

definition markReleased :: "unfinishedUploadSegment \<Rightarrow> uint64 \<Rightarrow> unfinishedUploadSegment" where
  "markReleased uc memRel =
     (let segmentComplete = IsSegmentUploadComplete uc;
          wasReleased = released uc;
          uc1 = (if segmentComplete \<and> \<not> wasReleased then uc\<lparr>released := True\<rparr> else uc)
      in uc1\<lparr>memoryReleased := memoryReleased uc1 + memRel\<rparr>)"

definition releaseSegment ::
  "env \<Rightarrow> StorageClient \<times> unfinishedUploadSegment \<Rightarrow> StorageClient" where
  "releaseSegment e st = (case st of (sc, uc) \<Rightarrow>
     let sc1 = addEvents [FileEntryClose] (updateUploadSegmentStuckStatus e sc uc)
     in addEvents [PendingDelete (segid uc)]
          (sc1\<lparr>pendingSegments := pendingSegments sc1 - {segid uc}\<rparr>))"

definition finishCleanup ::
  "env \<Rightarrow> bool \<Rightarrow> bool \<Rightarrow> uint64 \<Rightarrow> uint64 \<Rightarrow> StorageClient \<times> unfinishedUploadSegment
     \<Rightarrow> StorageClient" where
  "finishCleanup e segmentComplete wasReleased memRel totalMemoryReleased st =
     (case st of (sc, uc) \<Rightarrow>
        let sc1 = (if 0 < memRel then addEvents [MemoryReturn memRel] sc else sc);
            sc2 = (if segmentComplete \<and> \<not> wasReleased then releaseSegment e (sc1, uc) else sc1)
        in if segmentComplete \<and> totalMemoryReleased \<noteq> memoryNeeded uc
           then addEvents [LogMemoryNotReleased] sc2 else sc2)"

definition cleanupUploadSegment ::
  "env \<Rightarrow> (nat \<Rightarrow> int) \<Rightarrow> StorageClient \<times> unfinishedUploadSegment
     \<Rightarrow> panic + StorageClient \<times> unfinishedUploadSegment" where
  "cleanupUploadSegment e rnd st = (case st of (sc, uc) \<Rightarrow>
     case trimSlots (SectorSize e) uc of
       Inl err \<Rightarrow> Inl err
     | Inr (uc1, sectorsAvailable, memRel) \<Rightarrow>
         let segmentComplete = IsSegmentUploadComplete uc1;
             wasReleased = released uc1;
             uc2 = markReleased uc1 memRel;
             totalMemoryReleased = memoryReleased uc2
         in case (if 0 < sectorsAvailable then notifyBackupWorkers rnd (sc, uc2)
                  else Inr (sc, uc2)) of
              Inl err \<Rightarrow> Inl err
            | Inr st3 \<Rightarrow>
                Inr (finishCleanup e segmentComplete wasReleased memRel totalMemoryReleased st3,
                     snd st3))"

subsection \<open>Retrieving, encoding and dispatching\<close>

text \<open>The loop that sums \<^verbatim>\<open>storage.SectorSize\<close> over the claimed slots.\<close>

definition sectorCompletedMemory :: "uint64 \<Rightarrow> bool list \<Rightarrow> uint64" where
  "sectorCompletedMemory sectorSize slots =
     fold (\<lambda>s acc. if s then acc + sectorSize else acc) slots 0"

text \<open>
  \<^verbatim>\<open>make([]byte, uint64(len(logicalSegmentData)) * storage.SectorSize)\<close> is a slice
  of that many zero bytes; the loop appends every buffer to it.
\<close>

definition segmentBytes :: "uint64 \<Rightarrow> byte list list \<Rightarrow> byte list" where
  "segmentBytes sectorSize logical =
     fold (\<lambda>b acc. acc @ b) logical
       (replicate (unat (of_nat (length logical) * sectorSize)) 0)"

definition encryptSlot :: "env \<Rightarrow> nat \<Rightarrow> unfinishedUploadSegment \<Rightarrow> unfinishedUploadSegment" where
  "encryptSlot e i segment =
     (if sectorSlotsStatus segment ! i
      then segment\<lparr>physicalSegmentData := (physicalSegmentData segment)[i := []]\<rparr>
      else case encryptResult e (physicalSegmentData segment ! i) of
             None \<Rightarrow> segment
           | Some cipherData \<Rightarrow>
               segment\<lparr>physicalSegmentData := (physicalSegmentData segment)[i := cipherData]\<rparr>)"

text \<open>
  \<^verbatim>\<open>downloadLogicalSegmentData\<close>. For the last segment of the file the remainder
  \<^verbatim>\<open>FileSize() % segment.length\<close> is taken, which panics for a segment of length 0.
  The download itself is a collaborator; the segment is written only when it succeeds.
  The outer \<open>Inl\<close> is a panic, the inner one the error the function returns.
\<close>

definition downloadLogicalSegmentData ::
  "env \<Rightarrow> unfinishedUploadSegment \<Rightarrow> panic + (retrieveError + unfinishedUploadSegment)" where
  "downloadLogicalSegmentData e segment =
     (let lastSegment = (segIndex segment = word_of_int (numSegments e - 1)) in
      if lastSegment \<and> segLength segment = 0 then Inl IntegerDivideByZero
      else
        let downloadLength =
              (if lastSegment \<and> fileSize e mod segLength segment \<noteq> 0
               then fileSize e mod segLength segment else segLength segment)
        in case downloadResult e downloadLength of
             Inl err \<Rightarrow> Inr (Inl err)
           | Inr buf \<Rightarrow> Inr (Inr (segment\<lparr>logicalSegmentData := buf\<rparr>)))"

text \<open>
  The test \<^verbatim>\<open>needDownload\<close> of \<^verbatim>\<open>retrieveLogicalSegmentData\<close>, on the threshold
  and the three sector counts of the segment.
\<close>

definition needDownload :: "rat \<Rightarrow> int \<Rightarrow> int \<Rightarrow> int \<Rightarrow> bool" where
  "needDownload threshold sectorsAll sectorsMin sectorsCompleted =
     (let numRedundantSectors = float64_of_int (wrapInt64 (sectorsAll - sectorsMin));
          minMissingSectorsToDownload =
            int_of_float64 (mulFloat64 numRedundantSectors (roundFloat64 threshold))
      in wrapInt64 (sectorsCompleted + minMissingSectorsToDownload) < sectorsAll)"

definition retrieveLogicalSegmentData ::
  "env \<Rightarrow> unfinishedUploadSegment \<Rightarrow> panic + (retrieveError + unfinishedUploadSegment)" where
  "retrieveLogicalSegmentData e segment =
     (let download = needDownload (RemoteRepairDownloadThreshold e) (sectorsAllNeedNum segment)
                       (sectorsMinNeedNum segment) (sectorsCompletedNum segment)
      in if localPath e = [] \<and> download then downloadLogicalSegmentData e segment
         else if localPath e = [] then Inr (Inl FileNotAvailableLocally)
         else if openFails e \<and> download then downloadLogicalSegmentData e segment
         else if openFails e then Inr (Inl FailedToOpenFileLocally)
         else if readOutcome e = ReadError \<and> download then downloadLogicalSegmentData e segment
         else if readOutcome e = ReadError then Inr (Inl FailedToReadFileLocally)
         else Inr (Inr (segment\<lparr>logicalSegmentData := readBuffer e\<rparr>)))"

text \<open>
  The body of \<^verbatim>\<open>retrieveDataAndDispatchSegment\<close> between the registration of the
  deferred cleanup and the return. \<open>rnd\<close> feeds the assignment round of
  \<^verbatim>\<open>dispatchSegment\<close>. A panic of the retrieval is a panic of the body.
\<close>

definition retrieveAndDispatch ::
  "env \<Rightarrow> (nat \<Rightarrow> int) \<Rightarrow> StorageClient \<times> unfinishedUploadSegment
     \<Rightarrow> panic + StorageClient \<times> unfinishedUploadSegment" where
  "retrieveAndDispatch e rnd st = (case st of (sc, segment) \<Rightarrow>
     let erasureCodingMemory = fileSectorSize e * word_of_int (MinSectors e);
         sectorCompletedMem = sectorCompletedMemory (SectorSize e) (sectorSlotsStatus segment)
     in case retrieveLogicalSegmentData e segment of
          Inl p \<Rightarrow> Inl p
        | Inr (Inl err) \<Rightarrow>
            Inr (addEvents [MemoryReturn (erasureCodingMemory + sectorCompletedMem)] sc,
                 segment\<lparr>logicalSegmentData := [], workersRemain := 0,
                   memoryReleased := memoryReleased segment
                                      + (erasureCodingMemory + sectorCompletedMem)\<rparr>)
        | Inr (Inr retrieved) \<Rightarrow>
            let bytes = segmentBytes (SectorSize e) (logicalSegmentData retrieved);
                encoded = encodeResult e bytes;
                sc1 = addEvents [EncodeCall bytes] sc;
                segment1 = retrieved\<lparr>physicalSegmentData := fst encoded\<rparr>
            in if snd encoded then
                 Inr (addEvents [MemoryReturn sectorCompletedMem] sc1,
                      segment1\<lparr>workersRemain := 0,
                        memoryReleased := memoryReleased segment1 + sectorCompletedMem,
                        physicalSegmentData := map (\<lambda>_. []) (fst encoded)\<rparr>)
               else
                 let sc2 = addEvents [MemoryReturn erasureCodingMemory] sc1;
                     segment2 = segment1\<lparr>logicalSegmentData := [],
                                  memoryReleased := memoryReleased segment1 + erasureCodingMemory\<rparr>
                 in if length (physicalSegmentData segment2) < length (sectorSlotsStatus segment2)
                    then Inr (sc2, segment2)
                    else
                      let segment3 = fold (encryptSlot e)
                                       [0 ..< length (sectorSlotsStatus segment2)] segment2
                      in if 0 < sectorCompletedMem then
                           dispatchSegment rnd
                             (addEvents [MemoryReturn sectorCompletedMem] sc2,
                              segment3\<lparr>memoryReleased :=
                                memoryReleased segment3 + sectorCompletedMem\<rparr>)
                         else dispatchSegment rnd (sc2, segment3))"

text \<open>
  \<^verbatim>\<open>retrieveDataAndDispatchSegment\<close>: nothing happens when the task manager refuses
  the task; otherwise the deferred \<^verbatim>\<open>cleanupUploadSegment\<close> runs on what the body
  leaves. A panic of the body stays a panic after the deferred call.
\<close>

definition retrieveDataAndDispatchSegment ::
  "env \<Rightarrow> (nat \<Rightarrow> int) \<Rightarrow> (nat \<Rightarrow> int) \<Rightarrow> StorageClient \<times> unfinishedUploadSegment
     \<Rightarrow> panic + StorageClient \<times> unfinishedUploadSegment" where
  "retrieveDataAndDispatchSegment e rndDispatch rndCleanup st =
     (if tmAddFails e then Inr st
      else case retrieveAndDispatch e rndDispatch st of
             Inl err \<Rightarrow> Inl err
           | Inr st' \<Rightarrow> cleanupUploadSegment e rndCleanup st')"

subsection \<open>Describing the outcome of the slot-trimming loop\<close>

text \<open>
  \<open>freeBefore slots i\<close> counts the free slots among the first \<open>i\<close>;
  \<open>keptCount wr slots i\<close> is how many of them a segment with \<open>wr\<close> workers remaining
  keeps; \<open>trimmedSlots\<close> and \<open>trimmedData\<close> are the slot flags and the sector
  buffers once the first \<open>k\<close> slots have been walked.
\<close>

definition freeBefore :: "bool list \<Rightarrow> nat \<Rightarrow> nat" where
  "freeBefore slots i = length (filter (\<lambda>s. \<not> s) (take i slots))"

definition keptCount :: "int \<Rightarrow> bool list \<Rightarrow> nat \<Rightarrow> nat" where
  "keptCount wr slots k = min (freeBefore slots k) (nat wr)"

definition trimmedSlots :: "int \<Rightarrow> bool list \<Rightarrow> nat \<Rightarrow> bool list" where
  "trimmedSlots wr slots k =
     map (\<lambda>j. if j < k then (slots ! j \<or> wr \<le> int (freeBefore slots j)) else slots ! j)
       [0 ..< length slots]"

definition trimmedData :: "int \<Rightarrow> bool list \<Rightarrow> byte list list \<Rightarrow> nat \<Rightarrow> byte list list" where
  "trimmedData wr slots phys k =
     map (\<lambda>j. if j < k \<and> \<not> slots ! j \<and> wr \<le> int (freeBefore slots j) then [] else phys ! j)
       [0 ..< length phys]"

subsection \<open>Describing the outcome of an assignment round\<close>

text \<open>
  \<open>chosenWorker ws rnd i\<close> is the one worker slot \<open>i\<close> is offered to;
  \<open>assignedTo \<dots> p k\<close> lists the slots among the first \<open>k\<close> that worker \<open>p\<close>
  receives; \<open>assignedStore\<close> and \<open>assignedSlots\<close> are the worker store and the slot
  flags once the first \<open>k\<close> slots have been walked.
\<close>

definition chosenWorker :: "wptr list \<Rightarrow> (nat \<Rightarrow> int) \<Rightarrow> nat \<Rightarrow> wptr" where
  "chosenWorker ws rnd i = ws ! nat (goRem (wrapInt64 (int i + rnd i)) (int (length ws)))"

definition assignedTo ::
  "wptr list \<Rightarrow> (nat \<Rightarrow> int) \<Rightarrow> (wptr \<Rightarrow> worker) \<Rightarrow> bool list \<Rightarrow> wptr \<Rightarrow> nat \<Rightarrow> nat list" where
  "assignedTo ws rnd store slots p k =
     filter (\<lambda>i. \<not> slots ! i \<and> chosenWorker ws rnd i = p \<and> ready (store p)) [0 ..< k]"

definition withAssigned :: "uploadSegmentID \<Rightarrow> nat list \<Rightarrow> worker \<Rightarrow> worker" where
  "withAssigned sid added w =
     (if added = [] then w
      else w\<lparr>sectorIndexMap := (sectorIndexMap w)(sid \<mapsto>
             (case sectorIndexMap w sid of None \<Rightarrow> [] | Some indexes \<Rightarrow> indexes) @ map int added)\<rparr>)"

definition assignedStore ::
  "wptr list \<Rightarrow> (nat \<Rightarrow> int) \<Rightarrow> (wptr \<Rightarrow> worker) \<Rightarrow> unfinishedUploadSegment \<Rightarrow> nat
     \<Rightarrow> wptr \<Rightarrow> worker" where
  "assignedStore ws rnd store uc k =
     (\<lambda>p. withAssigned (segid uc) (assignedTo ws rnd store (sectorSlotsStatus uc) p k) (store p))"

definition assignedSlots ::
  "wptr list \<Rightarrow> (nat \<Rightarrow> int) \<Rightarrow> (wptr \<Rightarrow> worker) \<Rightarrow> bool list \<Rightarrow> nat \<Rightarrow> bool list" where
  "assignedSlots ws rnd store slots k =
     map (\<lambda>j. if j < k then (slots ! j \<or> ready (store (chosenWorker ws rnd j))) else slots ! j)
       [0 ..< length slots]"

subsection \<open>Histories of a segment\<close>

text \<open>
  A history of one segment: calls of \<^verbatim>\<open>cleanupUploadSegment\<close>, of
  \<^verbatim>\<open>dispatchSegment\<close> and of \<^verbatim>\<open>retrieveDataAndDispatchSegment\<close>, each with what
  the collaborators answer during the call, and any other activity on the client and the
  segment in between. A panic ends the history.

  In the sources only \<^verbatim>\<open>cleanupUploadSegment\<close> writes the released flag and deletes
  from the pending set, and no statement sets a slot of \<^verbatim>\<open>sectorSlotsStatus\<close> back
  to free. A slot is true, as the declaration of the field has it, if a sector is either
  uploaded or being uploaded by a worker, and \<^verbatim>\<open>sectorsCompletedNum\<close> counts the
  sectors uploaded: \<open>uploadedSectorsClaimed\<close> says that a segment all of whose sectors
  are uploaded has no free slot. \<open>keepsRelease f st\<close> asks of other activity \<open>f\<close> in
  state \<open>st\<close> that it leaves the flag and the pending set alone, sets no claimed slot
  of a released segment free, and leaves the uploaded sectors claimed;
  \<open>otherActivitiesKeepRelease\<close> asks it of every other activity of a history, in the
  state the history has reached. \<open>noFreeSlot\<close> says that every slot of the segment is
  claimed, \<open>isReleaseEvent\<close> picks the calls that belong to the release of a segment,
  \<open>deletions\<close> counts the removals from the pending set.
\<close>

datatype step =
    CleanupCall env "nat \<Rightarrow> int"
  | DispatchCall "nat \<Rightarrow> int"
  | RetrieveCall env "nat \<Rightarrow> int" "nat \<Rightarrow> int"
  | OtherActivity "StorageClient \<times> unfinishedUploadSegment \<Rightarrow> StorageClient \<times> unfinishedUploadSegment"

fun runSteps ::
  "step list \<Rightarrow> StorageClient \<times> unfinishedUploadSegment
     \<Rightarrow> panic + StorageClient \<times> unfinishedUploadSegment" where
  "runSteps [] st = Inr st"
| "runSteps (CleanupCall e rnd # steps) st =
     (case cleanupUploadSegment e rnd st of Inl err \<Rightarrow> Inl err | Inr st' \<Rightarrow> runSteps steps st')"
| "runSteps (DispatchCall rnd # steps) st =
     (case dispatchSegment rnd st of Inl err \<Rightarrow> Inl err | Inr st' \<Rightarrow> runSteps steps st')"
| "runSteps (RetrieveCall e rndDispatch rndCleanup # steps) st =
     (case retrieveDataAndDispatchSegment e rndDispatch rndCleanup st of
        Inl err \<Rightarrow> Inl err
      | Inr st' \<Rightarrow> runSteps steps st')"
| "runSteps (OtherActivity f # steps) st = runSteps steps (f st)"

fun isPendingDelete :: "event \<Rightarrow> bool" where
  "isPendingDelete (PendingDelete sid) = True"
| "isPendingDelete ev = False"

fun isReleaseEvent :: "event \<Rightarrow> bool" where
  "isReleaseEvent (PendingDelete sid) = True"
| "isReleaseEvent FileEntryClose = True"
| "isReleaseEvent (SetStuckByIndex i b) = True"
| "isReleaseEvent InitAndUpdateDirMetadata = True"
| "isReleaseEvent StuckSegmentSuccess = True"
| "isReleaseEvent ev = False"

definition deletions :: "StorageClient \<Rightarrow> nat" where
  "deletions sc = length (filter isPendingDelete (events sc))"

definition noFreeSlot :: "unfinishedUploadSegment \<Rightarrow> bool" where
  "noFreeSlot uc = list_all (\<lambda>s. s) (sectorSlotsStatus uc)"

definition keepsClaimed :: "bool list \<Rightarrow> bool list \<Rightarrow> bool" where
  "keepsClaimed old new = list_all2 (\<lambda>before after. before \<longrightarrow> after) old new"

definition uploadedSectorsClaimed :: "unfinishedUploadSegment \<Rightarrow> bool" where
  "uploadedSectorsClaimed uc = (sectorsCompletedNum uc = sectorsAllNeedNum uc \<longrightarrow> noFreeSlot uc)"

definition keepsRelease ::
  "(StorageClient \<times> unfinishedUploadSegment \<Rightarrow> StorageClient \<times> unfinishedUploadSegment)
     \<Rightarrow> StorageClient \<times> unfinishedUploadSegment \<Rightarrow> bool" where
  "keepsRelease f st =
     (released (snd (f st)) = released (snd st)
      \<and> deletions (fst (f st)) = deletions (fst st)
      \<and> (released (snd st) \<longrightarrow>
           keepsClaimed (sectorSlotsStatus (snd st)) (sectorSlotsStatus (snd (f st))))
      \<and> uploadedSectorsClaimed (snd (f st)))"

fun otherActivitiesKeepRelease ::
  "step list \<Rightarrow> StorageClient \<times> unfinishedUploadSegment \<Rightarrow> bool" where
  "otherActivitiesKeepRelease [] st = True"
| "otherActivitiesKeepRelease (CleanupCall e rnd # steps) st =
     (case cleanupUploadSegment e rnd st of
        Inl err \<Rightarrow> True
      | Inr st' \<Rightarrow> otherActivitiesKeepRelease steps st')"
| "otherActivitiesKeepRelease (DispatchCall rnd # steps) st =
     (case dispatchSegment rnd st of
        Inl err \<Rightarrow> True
      | Inr st' \<Rightarrow> otherActivitiesKeepRelease steps st')"
| "otherActivitiesKeepRelease (RetrieveCall e rndDispatch rndCleanup # steps) st =
     (case retrieveDataAndDispatchSegment e rndDispatch rndCleanup st of
        Inl err \<Rightarrow> True
      | Inr st' \<Rightarrow> otherActivitiesKeepRelease steps st')"
| "otherActivitiesKeepRelease (OtherActivity f # steps) st =
     (keepsRelease f st \<and> otherActivitiesKeepRelease steps (f st))"

subsection \<open>Concrete segments, clients and environments\<close>

definition segment0 :: unfinishedUploadSegment where
  "segment0 = \<lparr>segid = \<lparr>fid = 1, index = 0\<rparr>, segIndex = 0, segLength = 4194304,
     memoryNeeded = 0, memoryReleased = 0,
     sectorsMinNeedNum = 1, sectorsAllNeedNum = 2, stuck = False, stuckRepair = False,
     logicalSegmentData = [], physicalSegmentData = [], sectorSlotsStatus = [],
     sectorsCompletedNum = 0, sectorsUploadingNum = 0, released = False, workersRemain = 0,
     workerBackups = []\<rparr>"

definition client0 :: StorageClient where
  "client0 = \<lparr>pendingSegments = {}, workerPool = [],
     workers = (\<lambda>p. \<lparr>ready = False, sectorIndexMap = Map.empty\<rparr>), events = []\<rparr>"

text \<open>
  An environment with sectors of 4 MiB, a threshold of one tenth, a local file of one
  segment and two bytes that is read in full, and an erasure coder and a cipher that
  succeed; the same with no local file and a download that fails; and the same with an
  erasure coder that fails.
\<close>

definition env0 :: env where
  "env0 = \<lparr>SectorSize = 4194304, fileSectorSize = 4194304, MinSectors = 1,
     RemoteRepairDownloadThreshold = 1 / 10, tmAddFails = False,
     localPath = ''/data/file'', openFails = False, readOutcome = ReadComplete,
     readBuffer = [[1, 2]], numSegments = 1, fileSize = 2,
     downloadResult = (\<lambda>downloadLength. Inr [[1, 2]]),
     encodeResult = (\<lambda>bytes. ([[1], [2]], False)),
     encryptResult = (\<lambda>sector. Some sector),
     clientOffline = False, stopBeforeSignal = False\<rparr>"

definition envRetrievalFails :: env where
  "envRetrievalFails =
     env0\<lparr>localPath := [], downloadResult := (\<lambda>downloadLength. Inl DownloadFailed)\<rparr>"

definition envEncodeFails :: env where
  "envEncodeFails = env0\<lparr>encodeResult := (\<lambda>bytes. ([], True))\<rparr>"

text \<open>Segments for the slot-trimming loop, and a store with one idle and one ready worker.\<close>

definition ucW :: unfinishedUploadSegment where
  "ucW = segment0\<lparr>physicalSegmentData := [[1], [2], [3], [4]],
     sectorSlotsStatus := [False, True, False, False], workersRemain := 1\<rparr>"

definition ucC :: unfinishedUploadSegment where
  "ucC = segment0\<lparr>physicalSegmentData := [[1], [2]],
     sectorSlotsStatus := [False, False], workersRemain := 1\<rparr>"

definition store2 :: "wptr \<Rightarrow> worker" where
  "store2 = (\<lambda>p. \<lparr>ready = (p = 1), sectorIndexMap = Map.empty\<rparr>)"

text \<open>
  A segment with one free slot and no worker remaining, the client and the segment a
  cleanup leaves of it, and a history: a cleanup, other activity that changes nothing,
  and a second cleanup.
\<close>

definition ucR :: unfinishedUploadSegment where
  "ucR = segment0\<lparr>physicalSegmentData := [[1]], sectorSlotsStatus := [False],
     memoryNeeded := 4194304\<rparr>"

definition ucReleased :: unfinishedUploadSegment where
  "ucReleased = ucR\<lparr>physicalSegmentData := [[]], sectorSlotsStatus := [True],
     released := True, memoryReleased := 4194304\<rparr>"

definition clientReleased :: StorageClient where
  "clientReleased = client0\<lparr>events := [MemoryReturn 4194304, SetStuckByIndex 0 True,
     InitAndUpdateDirMetadata, FileEntryClose, PendingDelete \<lparr>fid = 1, index = 0\<rparr>]\<rparr>"

definition stepsW :: "step list" where
  "stepsW = [CleanupCall env0 (\<lambda>i. 0), OtherActivity (\<lambda>st. st), CleanupCall env0 (\<lambda>i. 0)]"

section \<open>The counting disrupter\<close>

text \<open>
  A \<^verbatim>\<open>disruptFunc\<close> is a \<^verbatim>\<open>func() bool\<close>: the normal one answers true, the random
  one answers what its coin says, the blocking one answers what the wrapped function
  answers once its channel has delivered. The two methods \<^verbatim>\<open>disrupt\<close> are
  \<open>disrupt_standard\<close> and \<open>disrupt_counter\<close>.
\<close>

datatype disruptFunc = NormalDisruptFunc | RandomDisruptFunc | BlockDisruptFunc disruptFunc

fun callDisruptFunc :: "disruptFunc \<Rightarrow> bool \<Rightarrow> bool" where
  "callDisruptFunc NormalDisruptFunc coin = True"
| "callDisruptFunc RandomDisruptFunc coin = coin"
| "callDisruptFunc (BlockDisruptFunc f) coin = callDisruptFunc f coin"

type_synonym standardDisrupter = "string \<rightharpoonup> disruptFunc"

definition disrupt_standard :: "standardDisrupter \<Rightarrow> string \<Rightarrow> bool \<Rightarrow> bool" where
  "disrupt_standard d s coin = (case d s of None \<Rightarrow> False | Some f \<Rightarrow> callDisruptFunc f coin)"

definition registerDisruptFunc :: "standardDisrupter \<Rightarrow> string \<Rightarrow> disruptFunc \<Rightarrow> standardDisrupter" where
  "registerDisruptFunc d keyword df = d(keyword \<mapsto> df)"

definition newRandomDisrupter :: "string \<Rightarrow> standardDisrupter" where
  "newRandomDisrupter keyword = registerDisruptFunc Map.empty keyword RandomDisruptFunc"

definition newNormalDisrupter :: "string \<Rightarrow> standardDisrupter" where
  "newNormalDisrupter keyword = registerDisruptFunc Map.empty keyword NormalDisruptFunc"

definition newBlockDisrupter :: "string \<Rightarrow> standardDisrupter" where
  "newBlockDisrupter keyword =
     registerDisruptFunc Map.empty keyword (BlockDisruptFunc NormalDisruptFunc)"

record counterDisrupter =
  disrupter :: standardDisrupter
  counter :: "string \<rightharpoonup> int"

definition newCounterDisrupter :: "standardDisrupter \<Rightarrow> counterDisrupter" where
  "newCounterDisrupter sd = \<lparr>disrupter = sd, counter = Map.empty\<rparr>"

text \<open>
  \<^verbatim>\<open>c, exist := cd.counter[s]\<close> gives the zero value when the key is absent. The
  counter map, allocated by \<^verbatim>\<open>newCounterDisrupter\<close>, is shared by every copy of the
  receiver, so the updated disrupter is returned beside the answer.
\<close>

definition disrupt_counter :: "counterDisrupter \<Rightarrow> string \<Rightarrow> bool \<Rightarrow> bool \<times> counterDisrupter" where
  "disrupt_counter cd s coin =
     (let c = (case counter cd s of None \<Rightarrow> 0 | Some v \<Rightarrow> v);
          exist = (counter cd s \<noteq> None);
          cd' = (if \<not> exist then cd\<lparr>counter := (counter cd)(s \<mapsto> c + 1)\<rparr>
                 else cd\<lparr>counter := (counter cd)(s \<mapsto> 1)\<rparr>)
      in (disrupt_standard (disrupter cd') s coin, cd'))"

text \<open>One call of \<^verbatim>\<open>disrupt(s)\<close> for every coin of the list, in order.\<close>

fun disrupt_calls :: "counterDisrupter \<Rightarrow> string \<Rightarrow> bool list \<Rightarrow> counterDisrupter" where
  "disrupt_calls cd s [] = cd"
| "disrupt_calls cd s (coin # coins) = disrupt_calls (snd (disrupt_counter cd s coin)) s coins"

section \<open>Completion predicate\<close>

text \<open>
  C2. \<^verbatim>\<open>IsSegmentUploadComplete\<close> answers true exactly when all needed sectors are
  completed and none is uploading, or no worker remains and none is uploading. With ten
  sectors needed it is true for ten completed and none uploading, true for no worker
  remaining, none uploading and six completed, and false with one sector uploading
  whatever the other counters are.
\<close>

theorem IsSegmentUploadComplete_iff:
  "IsSegmentUploadComplete uc =
     ((sectorsCompletedNum uc = sectorsAllNeedNum uc \<and> sectorsUploadingNum uc = 0) \<or>
      (workersRemain uc = 0 \<and> sectorsUploadingNum uc = 0))
   \<and> IsSegmentUploadComplete
        (uc\<lparr>sectorsAllNeedNum := 10, sectorsCompletedNum := 10, sectorsUploadingNum := 0\<rparr>)
   \<and> IsSegmentUploadComplete
        (uc\<lparr>sectorsAllNeedNum := 10, sectorsCompletedNum := 6, sectorsUploadingNum := 0,
            workersRemain := 0\<rparr>)
   \<and> IsSegmentUploadComplete (uc\<lparr>sectorsUploadingNum := 1\<rparr>) = False"
  by (simp add: IsSegmentUploadComplete_def)

section \<open>The counter of the counting disrupter\<close>

lemma disrupt_counter_sets_one: "counter (snd (disrupt_counter cd s coin)) s = Some 1"
  by (simp add: disrupt_counter_def Let_def split: option.splits)

lemma disrupt_calls_append:
  "disrupt_calls cd s (coins @ [coin]) = snd (disrupt_counter (disrupt_calls cd s coins) s coin)"
  by (induction coins arbitrary: cd) simp_all

text \<open>
  C10. After any number \<open>n \<ge> 1\<close> of calls of \<^verbatim>\<open>disrupt(s)\<close> on a counting disrupter,
  with nothing else touching the counter, the count recorded for \<open>s\<close> is 1: it never
  exceeds 1, and from the second call on it is not the number of calls made.
\<close>

theorem disrupt_counter_stays_one:
  assumes "1 \<le> length coins"
  shows "counter (disrupt_calls cd s coins) s = Some 1
         \<and> (2 \<le> length coins \<longrightarrow> counter (disrupt_calls cd s coins) s \<noteq> Some (int (length coins)))"
proof -
  from assms obtain cs c where "coins = cs @ [c]"
    by (cases coins rule: rev_cases) auto
  then have "counter (disrupt_calls cd s coins) s = Some 1"
    by (simp add: disrupt_calls_append disrupt_counter_sets_one)
  then show ?thesis by auto
qed

theorem disrupt_counter_stays_one_witness:
  "1 \<le> length [True, False, True]
   \<and> counter (disrupt_calls (newCounterDisrupter (newNormalDisrupter ''no loop'')) ''no loop''
        [True, False, True]) ''no loop'' = Some 1
   \<and> counter (disrupt_calls (newCounterDisrupter (newNormalDisrupter ''no loop'')) ''no loop''
        [True, False, True]) ''no loop'' \<noteq> Some 3"
  using disrupt_counter_stays_one
    [of "[True, False, True]" "newCounterDisrupter (newNormalDisrupter ''no loop'')" "''no loop''"]
  by simp

section \<open>Evaluating the concrete inputs\<close>

lemma segment0_fields:
  "sectorSlotsStatus segment0 = []" "physicalSegmentData segment0 = []"
  "workersRemain segment0 = 0" "released segment0 = False" "memoryReleased segment0 = 0"
  "memoryNeeded segment0 = 0" "sectorsUploadingNum segment0 = 0"
  "sectorsCompletedNum segment0 = 0" "sectorsAllNeedNum segment0 = 2"
  "workerBackups segment0 = []" "logicalSegmentData segment0 = []"
  "segid segment0 = \<lparr>fid = 1, index = 0\<rparr>" "stuck segment0 = False" "stuckRepair segment0 = False"
  "sectorsMinNeedNum segment0 = 1" "segIndex segment0 = 0" "segLength segment0 = 4194304"
  by (simp_all add: segment0_def)

lemma env0_fields:
  "SectorSize env0 = 4194304" "fileSectorSize env0 = 4194304" "MinSectors env0 = 1"
  "RemoteRepairDownloadThreshold env0 = 1 / 10" "tmAddFails env0 = False"
  "localPath env0 = ''/data/file''" "openFails env0 = False" "readOutcome env0 = ReadComplete"
  "readBuffer env0 = [[1, 2]]" "downloadResult env0 = (\<lambda>downloadLength. Inr [[1, 2]])"
  "numSegments env0 = 1" "fileSize env0 = 2"
  "encodeResult env0 = (\<lambda>bytes. ([[1], [2]], False))"
  "encryptResult env0 = (\<lambda>sector. Some sector)" "clientOffline env0 = False"
  "stopBeforeSignal env0 = False"
  by (simp_all add: env0_def)

lemma envRetrievalFails_fields:
  "SectorSize envRetrievalFails = 4194304" "fileSectorSize envRetrievalFails = 4194304"
  "MinSectors envRetrievalFails = 1" "RemoteRepairDownloadThreshold envRetrievalFails = 1 / 10"
  "tmAddFails envRetrievalFails = False" "localPath envRetrievalFails = []"
  "downloadResult envRetrievalFails = (\<lambda>downloadLength. Inl DownloadFailed)"
  "numSegments envRetrievalFails = 1" "fileSize envRetrievalFails = 2"
  "clientOffline envRetrievalFails = False" "stopBeforeSignal envRetrievalFails = False"
  by (simp_all add: envRetrievalFails_def env0_fields)

lemma envEncodeFails_fields:
  "SectorSize envEncodeFails = 4194304" "fileSectorSize envEncodeFails = 4194304"
  "MinSectors envEncodeFails = 1" "RemoteRepairDownloadThreshold envEncodeFails = 1 / 10"
  "tmAddFails envEncodeFails = False" "localPath envEncodeFails = ''/data/file''"
  "openFails envEncodeFails = False" "readOutcome envEncodeFails = ReadComplete"
  "readBuffer envEncodeFails = [[1, 2]]"
  "encodeResult envEncodeFails = (\<lambda>bytes. ([], True))"
  "clientOffline envEncodeFails = False" "stopBeforeSignal envEncodeFails = False"
  by (simp_all add: envEncodeFails_def env0_fields)

lemma retrieve_env0:
  "retrieveLogicalSegmentData env0 segment = Inr (Inr (segment\<lparr>logicalSegmentData := [[1, 2]]\<rparr>))"
  by (simp add: retrieveLogicalSegmentData_def env0_fields Let_def)

lemma retrieve_envEncodeFails:
  "retrieveLogicalSegmentData envEncodeFails segment
     = Inr (Inr (segment\<lparr>logicalSegmentData := [[1, 2]]\<rparr>))"
  by (simp add: retrieveLogicalSegmentData_def envEncodeFails_fields Let_def)

lemma retrieve_envRetrievalFails:
  "segLength segment \<noteq> 0 \<Longrightarrow>
   retrieveLogicalSegmentData envRetrievalFails segment =
     Inr (Inl (if needDownload (1 / 10) (sectorsAllNeedNum segment) (sectorsMinNeedNum segment)
                    (sectorsCompletedNum segment)
               then DownloadFailed else FileNotAvailableLocally))"
  by (simp add: retrieveLogicalSegmentData_def downloadLogicalSegmentData_def
      envRetrievalFails_fields Let_def)

text \<open>The binary64 values of one tenth and nine tenths, and some roundings.\<close>

lemma roundFloat64_examples:
  "roundFloat64 (1 / 10) = Finite (3602879701896397 / 2 ^ 55)"
  "roundFloat64 (9 / 10) = Finite (8106479329266893 / 2 ^ 53)"
  "roundFloat64 (1 - 3602879701896397 / 2 ^ 55) = Finite (8106479329266893 / 2 ^ 53)"
  "roundFloat64 10 = Finite 10"
  "roundFloat64 (2 ^ 63 - 1) = Finite (2 ^ 63)"
  "mulFloat64 (roundFloat64 (9 / 10)) (float64_of_int 10) = Finite 9"
  "int_of_float64 (mulFloat64 (float64_of_int 1) (roundFloat64 (1 / 10))) = 0"
  by code_simp+

lemma repair_2_0: "successfulRepair (1 / 10) 2 0 = False"
  by code_simp

lemma repair_examples:
  "successfulRepair (1 / 10) 10 9" "\<not> successfulRepair (1 / 10) 10 8"
  "successfulRepair (3602879701896397 / 2 ^ 55) 10 9"
  "\<not> successfulRepair (3602879701896397 / 2 ^ 55) 10 8"
  by code_simp+

lemma needDownload_example: "needDownload (1 / 10) 2 1 0"
  by code_simp

text \<open>The repair download of a last segment of length 0 panics.\<close>

lemma download_last_segment_of_length_0:
  "downloadLogicalSegmentData env0 (segment0\<lparr>segLength := 0\<rparr>) = Inl IntegerDivideByZero"
  "retrieveDataAndDispatchSegment envRetrievalFails rndDispatch rndCleanup
     (sc, segment0\<lparr>segLength := 0\<rparr>) = Inl IntegerDivideByZero"
  by (simp_all add: retrieveDataAndDispatchSegment_def retrieveAndDispatch_def
      retrieveLogicalSegmentData_def downloadLogicalSegmentData_def needDownload_example
      envRetrievalFails_fields env0_fields segment0_fields Let_def)

lemma client0_fields:
  "pendingSegments client0 = {}" "workerPool client0 = []" "events client0 = []"
  "workers client0 = (\<lambda>p. \<lparr>ready = False, sectorIndexMap = Map.empty\<rparr>)"
  by (simp_all add: client0_def)

lemma trimSlots_free_no_data:
  "physicalSegmentData uc = [] \<Longrightarrow> workersRemain uc = 0 \<Longrightarrow> sectorSlotsStatus uc = False # rest \<Longrightarrow>
   trimSlots S uc = Inl IndexOutOfRange"
  by (simp add: trimSlots_def trimSlot_def upt_conv_Cons del: upt_Suc)
lemma upt4: "[0 ..< 4] = [0, 1, 2, 3]" "[0..<2] = [0, 1]" "[0..<1] = [0]"
  by code_simp+

lemma ucW_fields:
  "sectorSlotsStatus ucW = [False, True, False, False]"
  "physicalSegmentData ucW = [[1], [2], [3], [4]]"
  "workersRemain ucW = 1"
  by (simp_all add: ucW_def)

lemma ucW_trimmed:
  "trimmedSlots 1 [False, True, False, False] 4 = [False, True, True, True]"
  "trimmedData 1 [False, True, False, False] [[1], [2], [3], [4]] 4 = [[1], [2], [], []]"
  "keptCount 1 [False, True, False, False] 4 = 1"
  by (simp_all add: trimmedSlots_def trimmedData_def keptCount_def freeBefore_def upt4)

lemma ucC_fields:
  "sectorSlotsStatus ucC = [False, False]"
  "physicalSegmentData ucC = [[1], [2]]"
  "workersRemain ucC = 1"
  by (simp_all add: ucC_def)

lemma ucC_round0: "trimSlot 4194304 0 (ucC, 0, 0) = Inr (ucC, 1, 0)"
  by (simp add: trimSlot_def ucC_fields)

lemma ucC_round1:
  "trimSlot 4194304 (Suc 0) (ucC, 1, 0) =
     Inr (ucC\<lparr>physicalSegmentData := [[1], []], sectorSlotsStatus := [False, True]\<rparr>,
          1, 4194304)"
  by (simp add: trimSlot_def ucC_fields)

section \<open>The slot-trimming pass of cleanup\<close>

lemma freeBefore_0: "freeBefore slots 0 = 0"
  by (simp add: freeBefore_def)

lemma freeBefore_Suc:
  "k < length slots \<Longrightarrow>
   freeBefore slots (Suc k) = freeBefore slots k + (if slots ! k then 0 else 1)"
  by (simp add: freeBefore_def take_Suc_conv_app_nth)

lemma freeBefore_mono: "j \<le> i \<Longrightarrow> freeBefore slots j \<le> freeBefore slots i"
proof -
  assume "j \<le> i"
  then have "take j slots = take j (take i slots)" by (simp add: min_def)
  then have "filter (\<lambda>s. \<not> s) (take j slots) = filter (\<lambda>s. \<not> s) (take j (take i slots))" by simp
  also have "length \<dots> \<le> length (filter (\<lambda>s. \<not> s) (take i slots))"
    by (metis append_take_drop_id filter_append length_append le_add1)
  finally show ?thesis by (simp add: freeBefore_def)
qed

lemma trimmedSlots_0: "trimmedSlots wr slots 0 = slots"
  by (simp add: trimmedSlots_def map_nth)

lemma trimmedData_0: "trimmedData wr slots phys 0 = phys"
  by (simp add: trimmedData_def map_nth)

lemma length_trimmedSlots: "length (trimmedSlots wr slots k) = length slots"
  by (simp add: trimmedSlots_def)

lemma length_trimmedData: "length (trimmedData wr slots phys k) = length phys"
  by (simp add: trimmedData_def)

lemma trimmedSlots_nth_ge:
  "k \<le> j \<Longrightarrow> j < length slots \<Longrightarrow> trimmedSlots wr slots k ! j = slots ! j"
  by (simp add: trimmedSlots_def)

lemma trimmedSlots_Suc_claimed:
  "k < length slots \<Longrightarrow> slots ! k \<Longrightarrow> trimmedSlots wr slots (Suc k) = trimmedSlots wr slots k"
  by (auto simp: trimmedSlots_def less_Suc_eq)

lemma trimmedSlots_Suc_kept:
  "k < length slots \<Longrightarrow> \<not> wr \<le> int (freeBefore slots k) \<Longrightarrow>
   trimmedSlots wr slots (Suc k) = trimmedSlots wr slots k"
  by (auto simp: trimmedSlots_def less_Suc_eq)

lemma trimmedSlots_Suc_released:
  "k < length slots \<Longrightarrow> wr \<le> int (freeBefore slots k) \<Longrightarrow>
   trimmedSlots wr slots (Suc k) = (trimmedSlots wr slots k)[k := True]"
  by (rule nth_equalityI) (auto simp: trimmedSlots_def less_Suc_eq nth_list_update)

lemma trimmedData_Suc_same:
  "slots ! k \<or> \<not> wr \<le> int (freeBefore slots k) \<Longrightarrow>
   trimmedData wr slots phys (Suc k) = trimmedData wr slots phys k"
  by (auto simp: trimmedData_def less_Suc_eq)

lemma trimmedData_Suc_released:
  "\<not> slots ! k \<Longrightarrow> wr \<le> int (freeBefore slots k) \<Longrightarrow>
   trimmedData wr slots phys (Suc k) = (trimmedData wr slots phys k)[k := []]"
proof (rule nth_equalityI)
  show "length (trimmedData wr slots phys (Suc k)) = length ((trimmedData wr slots phys k)[k := []])"
    by (simp add: trimmedData_def)
next
  fix i
  assume a: "\<not> slots ! k" "wr \<le> int (freeBefore slots k)"
    and i: "i < length (trimmedData wr slots phys (Suc k))"
  then have il: "i < length phys" by (simp add: trimmedData_def)
  show "trimmedData wr slots phys (Suc k) ! i = (trimmedData wr slots phys k)[k := []] ! i"
  proof (cases "i = k")
    case True
    with a il show ?thesis by (simp add: trimmedData_def)
  next
    case False
    with a il show ?thesis by (auto simp: trimmedData_def less_Suc_eq)
  qed
qed

text \<open>One round of the loop moves the description of the state from \<open>k\<close> to \<open>Suc k\<close>.\<close>

lemma trimSlot_step:
  assumes k: "k < length slots" and p: "length slots \<le> length phys"
    and wr: "workersRemain uc0 = wr"
  shows "trimSlot S k
           (uc0\<lparr>physicalSegmentData := trimmedData wr slots phys k,
                sectorSlotsStatus := trimmedSlots wr slots k\<rparr>,
            int (keptCount wr slots k),
            S * of_nat (freeBefore slots k - keptCount wr slots k))
         = Inr (uc0\<lparr>physicalSegmentData := trimmedData wr slots phys (Suc k),
                    sectorSlotsStatus := trimmedSlots wr slots (Suc k)\<rparr>,
                int (keptCount wr slots (Suc k)),
                S * of_nat (freeBefore slots (Suc k) - keptCount wr slots (Suc k)))"
proof (cases "slots ! k")
  case True
  with k show ?thesis
    by (simp add: trimSlot_def trimmedSlots_nth_ge trimmedSlots_Suc_claimed trimmedData_Suc_same
        keptCount_def freeBefore_Suc)
next
  case free: False
  show ?thesis
  proof (cases "wr \<le> int (freeBefore slots k)")
    case True
    then have kc: "keptCount wr slots k = nat wr" "keptCount wr slots (Suc k) = nat wr"
      using k free by (auto simp: keptCount_def freeBefore_Suc)
    have le: "wr \<le> int (keptCount wr slots k)"
      using True by (auto simp: keptCount_def)
    have sub: "freeBefore slots (Suc k) - nat wr = Suc (freeBefore slots k - nat wr)"
      using True k free by (auto simp: freeBefore_Suc)
    show ?thesis
      using k p free True le wr
      by (simp add: trimSlot_def trimmedSlots_nth_ge trimmedSlots_Suc_released
          trimmedData_Suc_released length_trimmedData kc sub algebra_simps)
  next
    case False
    then have kc: "keptCount wr slots k = freeBefore slots k"
        "keptCount wr slots (Suc k) = Suc (freeBefore slots k)"
      using k free by (auto simp: keptCount_def freeBefore_Suc)
    have nle: "\<not> wr \<le> int (keptCount wr slots k)"
      using False by (simp add: kc)
    show ?thesis
      using k p free False nle wr
      by (simp add: trimSlot_def trimmedSlots_nth_ge trimmedSlots_Suc_kept
          trimmedData_Suc_same kc freeBefore_Suc)
  qed
qed

lemma trimLoop_from:
  assumes p: "length slots \<le> length phys" and wr: "workersRemain uc0 = wr"
    and i: "i \<le> length slots"
  shows "k \<le> i \<Longrightarrow>
         trimLoop S [k ..< i]
           (uc0\<lparr>physicalSegmentData := trimmedData wr slots phys k,
                sectorSlotsStatus := trimmedSlots wr slots k\<rparr>,
            int (keptCount wr slots k),
            S * of_nat (freeBefore slots k - keptCount wr slots k))
         = Inr (uc0\<lparr>physicalSegmentData := trimmedData wr slots phys i,
                    sectorSlotsStatus := trimmedSlots wr slots i\<rparr>,
                int (keptCount wr slots i),
                S * of_nat (freeBefore slots i - keptCount wr slots i))"
proof (induction "i - k" arbitrary: k)
  case 0
  then show ?case by simp
next
  case (Suc d)
  then have ki: "k < i" by simp
  with i have k: "k < length slots" by simp
  from ki have upt: "[k ..< i] = k # [Suc k ..< i]"
    by (simp add: upt_conv_Cons)
  from Suc have "d = i - Suc k" "Suc k \<le> i" by simp_all
  from Suc.hyps(1) [OF this] show ?case
    by (simp only: upt trimLoop.simps trimSlot_step [OF k p wr] sum.case)
qed

lemma trimLoop_prefix:
  assumes "length (sectorSlotsStatus uc) \<le> length (physicalSegmentData uc)"
    and "i \<le> length (sectorSlotsStatus uc)"
  shows "trimLoop S [0 ..< i] (uc, 0, 0) =
     Inr (uc\<lparr>physicalSegmentData :=
               trimmedData (workersRemain uc) (sectorSlotsStatus uc) (physicalSegmentData uc) i,
              sectorSlotsStatus := trimmedSlots (workersRemain uc) (sectorSlotsStatus uc) i\<rparr>,
          int (keptCount (workersRemain uc) (sectorSlotsStatus uc) i),
          S * of_nat (freeBefore (sectorSlotsStatus uc) i
                      - keptCount (workersRemain uc) (sectorSlotsStatus uc) i))"
proof -
  have "uc\<lparr>physicalSegmentData := physicalSegmentData uc,
           sectorSlotsStatus := sectorSlotsStatus uc\<rparr> = uc"
    by simp
  with trimLoop_from [where ?uc0.0 = uc and k = 0 and S = S and i = i, OF assms(1) refl assms(2)]
  show ?thesis
    by (simp add: trimmedSlots_0 trimmedData_0 keptCount_def freeBefore_0)
qed

lemma trimSlots_result:
  assumes "length (sectorSlotsStatus uc) \<le> length (physicalSegmentData uc)"
  shows "trimSlots S uc =
     Inr (uc\<lparr>physicalSegmentData :=
               trimmedData (workersRemain uc) (sectorSlotsStatus uc) (physicalSegmentData uc)
                 (length (sectorSlotsStatus uc)),
              sectorSlotsStatus :=
               trimmedSlots (workersRemain uc) (sectorSlotsStatus uc) (length (sectorSlotsStatus uc))\<rparr>,
          int (keptCount (workersRemain uc) (sectorSlotsStatus uc) (length (sectorSlotsStatus uc))),
          S * of_nat (freeBefore (sectorSlotsStatus uc) (length (sectorSlotsStatus uc))
                      - keptCount (workersRemain uc) (sectorSlotsStatus uc) (length (sectorSlotsStatus uc))))"
  unfolding trimSlots_def by (rule trimLoop_prefix [OF assms order_refl])

lemma kept_le_iff: "wr \<le> int (keptCount wr slots i) \<longleftrightarrow> wr \<le> int (freeBefore slots i)"
  by (auto simp: keptCount_def)

lemma trimmedSlots_nth:
  "i < length slots \<Longrightarrow>
   trimmedSlots wr slots (length slots) ! i = (slots ! i \<or> wr \<le> int (keptCount wr slots i))"
  by (simp add: trimmedSlots_def kept_le_iff)

lemma trimmedData_nth:
  "i < length phys \<Longrightarrow>
   trimmedData wr slots phys n ! i =
     (if i < n \<and> \<not> slots ! i \<and> wr \<le> int (keptCount wr slots i) then [] else phys ! i)"
  by (simp add: trimmedData_def kept_le_iff)

lemma freeBefore_length: "freeBefore slots (length slots) = length (filter (\<lambda>s. \<not> s) slots)"
  by (simp add: freeBefore_def)

lemma free_take_trimmedSlots:
  "k \<le> length slots \<Longrightarrow>
   length (filter (\<lambda>s. \<not> s) (take k (trimmedSlots wr slots (length slots)))) = keptCount wr slots k"
proof (induction k)
  case 0
  then show ?case by (simp add: keptCount_def freeBefore_0)
next
  case (Suc k)
  then have k: "k < length slots" by simp
  then have "take (Suc k) (trimmedSlots wr slots (length slots))
      = take k (trimmedSlots wr slots (length slots)) @ [trimmedSlots wr slots (length slots) ! k]"
    by (simp add: take_Suc_conv_app_nth length_trimmedSlots)
  with Suc k show ?case
    by (auto simp: trimmedSlots_nth keptCount_def freeBefore_Suc)
qed

lemma free_trimmedSlots:
  "length (filter (\<lambda>s. \<not> s) (trimmedSlots wr slots (length slots)))
     = min (length (filter (\<lambda>s. \<not> s) slots)) (nat wr)"
  using free_take_trimmedSlots [of "length slots" slots wr]
  by (simp add: length_trimmedSlots keptCount_def freeBefore_length)

lemma kept_before_released:
  assumes "i < length slots" "j < length slots"
    and kept: "\<not> trimmedSlots wr slots (length slots) ! i"
    and rel: "\<not> slots ! j" "trimmedSlots wr slots (length slots) ! j"
  shows "i < j"
proof (rule ccontr)
  assume "\<not> i < j"
  then have "freeBefore slots j \<le> freeBefore slots i" by (simp add: freeBefore_mono)
  moreover from kept assms(1) have "\<not> wr \<le> int (freeBefore slots i)"
    by (simp add: trimmedSlots_nth kept_le_iff)
  moreover from rel assms(2) have "wr \<le> int (freeBefore slots j)"
    by (simp add: trimmedSlots_nth kept_le_iff)
  ultimately show False by simp
qed

text \<open>
  C6, as the code has it. When the sector buffers cover the slots, the first loop of
  \<^verbatim>\<open>cleanupUploadSegment\<close> walks the slots in index order; \<open>sectorsAvailable\<close> before
  round \<open>i\<close> is the number of free slots kept so far, \<open>keptCount wr slots i\<close>. A free
  slot is released (buffer cleared, slot marked claimed, one sector size counted) if and
  only if that number is at least \<open>workersRemain\<close> (not: exceeds it). So exactly
  \<open>min\<close> (free slots before) \<open>workersRemain\<close> slots stay free, a negative
  \<open>workersRemain\<close> counting as 0, and every slot kept free has a smaller index than
  every slot released.
\<close>

theorem cleanup_trims_from_workersRemain_on:
  assumes "length (sectorSlotsStatus uc) \<le> length (physicalSegmentData uc)"
    and "slots = sectorSlotsStatus uc" and "phys = physicalSegmentData uc"
    and "wr = workersRemain uc" and "n = length slots"
  shows "trimSlots S uc =
           Inr (uc\<lparr>physicalSegmentData := trimmedData wr slots phys n,
                    sectorSlotsStatus := trimmedSlots wr slots n\<rparr>,
                int (keptCount wr slots n),
                S * of_nat (length (filter (\<lambda>s. \<not> s) slots) - keptCount wr slots n))
       \<and> (\<forall>i<n. \<exists>uci memi.
              trimLoop S [0 ..< i] (uc, 0, 0) = Inr (uci, int (keptCount wr slots i), memi)
            \<and> trimmedSlots wr slots n ! i = (slots ! i \<or> wr \<le> int (keptCount wr slots i))
            \<and> trimmedData wr slots phys n ! i =
                (if \<not> slots ! i \<and> wr \<le> int (keptCount wr slots i) then [] else phys ! i))
       \<and> length (filter (\<lambda>s. \<not> s) (trimmedSlots wr slots n))
            = min (length (filter (\<lambda>s. \<not> s) slots)) (nat wr)
       \<and> keptCount wr slots n = length (filter (\<lambda>s. \<not> s) (trimmedSlots wr slots n))
       \<and> (\<forall>i<n. \<forall>j<n. \<not> trimmedSlots wr slots n ! i \<and> \<not> slots ! j \<and> trimmedSlots wr slots n ! j
              \<longrightarrow> i < j)"
proof -
  have len: "length slots \<le> length phys" using assms by simp
  have a: "trimSlots S uc =
           Inr (uc\<lparr>physicalSegmentData := trimmedData wr slots phys n,
                    sectorSlotsStatus := trimmedSlots wr slots n\<rparr>,
                int (keptCount wr slots n),
                S * of_nat (length (filter (\<lambda>s. \<not> s) slots) - keptCount wr slots n))"
    using trimSlots_result [OF assms(1), of S] assms(2-5) by (simp add: freeBefore_length)
  have b: "\<exists>uci memi.
              trimLoop S [0 ..< i] (uc, 0, 0) = Inr (uci, int (keptCount wr slots i), memi)
            \<and> trimmedSlots wr slots n ! i = (slots ! i \<or> wr \<le> int (keptCount wr slots i))
            \<and> trimmedData wr slots phys n ! i =
                (if \<not> slots ! i \<and> wr \<le> int (keptCount wr slots i) then [] else phys ! i)"
    if "i < n" for i
  proof -
    from that assms have i: "i \<le> length (sectorSlotsStatus uc)" by simp
    have "trimLoop S [0 ..< i] (uc, 0, 0) =
       Inr (uc\<lparr>physicalSegmentData := trimmedData wr slots phys i,
                sectorSlotsStatus := trimmedSlots wr slots i\<rparr>,
            int (keptCount wr slots i),
            S * of_nat (freeBefore slots i - keptCount wr slots i))"
      using trimLoop_prefix [OF assms(1) i, of S] assms(2-5) by simp
    moreover have "trimmedSlots wr slots n ! i = (slots ! i \<or> wr \<le> int (keptCount wr slots i))"
      using that assms(5) by (simp add: trimmedSlots_nth)
    moreover have "trimmedData wr slots phys n ! i =
                (if \<not> slots ! i \<and> wr \<le> int (keptCount wr slots i) then [] else phys ! i)"
      using that len assms(5) by (simp add: trimmedData_nth)
    ultimately show ?thesis by blast
  qed
  have c: "length (filter (\<lambda>s. \<not> s) (trimmedSlots wr slots n))
            = min (length (filter (\<lambda>s. \<not> s) slots)) (nat wr)"
    using assms(5) by (simp add: free_trimmedSlots)
  have d: "keptCount wr slots n = length (filter (\<lambda>s. \<not> s) (trimmedSlots wr slots n))"
    using assms(5) by (simp add: free_trimmedSlots keptCount_def freeBefore_length)
  have e: "i < j" if "i < n" "j < n" "\<not> trimmedSlots wr slots n ! i" "\<not> slots ! j"
      "trimmedSlots wr slots n ! j" for i j
    using kept_before_released [of i slots j wr] that assms(5) by simp
  from a b c d e show ?thesis by blast
qed

theorem cleanup_trims_witness:
  "length (sectorSlotsStatus ucW) \<le> length (physicalSegmentData ucW)
   \<and> trimSlots 4194304 ucW =
       Inr (ucW\<lparr>physicalSegmentData := [[1], [2], [], []],
                sectorSlotsStatus := [False, True, True, True]\<rparr>, 1, 8388608)
   \<and> length (filter (\<lambda>s. \<not> s) [False, True, True, True])
       = min (length (filter (\<lambda>s. \<not> s) (sectorSlotsStatus ucW))) (nat (workersRemain ucW))"
proof -
  have h: "length (sectorSlotsStatus ucW) \<le> length (physicalSegmentData ucW)"
    by (simp add: ucW_fields)
  have "trimSlots 4194304 ucW =
       Inr (ucW\<lparr>physicalSegmentData := trimmedData 1 [False, True, False, False] [[1], [2], [3], [4]] 4,
                sectorSlotsStatus := trimmedSlots 1 [False, True, False, False] 4\<rparr>,
            int (keptCount 1 [False, True, False, False] 4),
            4194304 * of_nat (length (filter (\<lambda>s. \<not> s) [False, True, False, False])
                              - keptCount 1 [False, True, False, False] 4))"
    by (rule cleanup_trims_from_workersRemain_on
          [of ucW "[False, True, False, False]" "[[1], [2], [3], [4]]" 1 4 4194304, THEN conjunct1])
       (simp_all add: ucW_fields)
  then have "trimSlots 4194304 ucW =
       Inr (ucW\<lparr>physicalSegmentData := [[1], [2], [], []],
                sectorSlotsStatus := [False, True, True, True]\<rparr>, 1, 8388608)"
    by (simp add: ucW_trimmed)
  with h show ?thesis by (simp add: ucW_fields)
qed

text \<open>
  The claim as stated fails: with two free slots and one worker remaining, one slot is
  kept before round 1, which does not exceed \<open>workersRemain = 1\<close>, and round 1
  releases slot 1 all the same.
\<close>

theorem cleanup_trims_exceeds_counterexample:
  "trimLoop 4194304 [0 ..< 1] (ucC, 0, 0) = Inr (ucC, 1, 0)
   \<and> workersRemain ucC = 1
   \<and> trimSlots 4194304 ucC =
       Inr (ucC\<lparr>physicalSegmentData := [[1], []], sectorSlotsStatus := [False, True]\<rparr>,
            1, 4194304)"
  by (simp add: trimSlots_def ucC_fields upt4 ucC_round0 ucC_round1)

section \<open>Runtime panics of the core\<close>

text \<open>
  C9. The claim is that no execution of the core ends the process. The code panics:
  after a retrieval failure or an encoding failure that leaves \<^verbatim>\<open>physicalSegmentData\<close>
  empty, the deferred cleanup of a segment with a free slot assigns to
  \<^verbatim>\<open>physicalSegmentData[0]\<close> (index out of range), and an assignment round over an
  empty worker list, as \<^verbatim>\<open>dispatchSegment\<close> runs it for an empty pool, divides by
  zero.
\<close>

theorem core_can_panic:
  "retrieveDataAndDispatchSegment envRetrievalFails rndDispatch rndCleanup
     (client0, segment0\<lparr>sectorSlotsStatus := [False, False]\<rparr>) = Inl IndexOutOfRange
   \<and> retrieveDataAndDispatchSegment envEncodeFails rndDispatch rndCleanup
       (client0, segment0\<lparr>sectorSlotsStatus := [False, False]\<rparr>) = Inl IndexOutOfRange
   \<and> cleanupUploadSegment e rnd
       (sc, segment0\<lparr>sectorSlotsStatus := [False, False]\<rparr>) = Inl IndexOutOfRange
   \<and> randomAssignSectorTaskToWorker [] rnd
       (store, segment0\<lparr>sectorSlotsStatus := [False, False]\<rparr>) = Inl IntegerDivideByZero
   \<and> dispatchSegment rnd (client0, segment0\<lparr>sectorSlotsStatus := [False, False]\<rparr>)
       = Inl IntegerDivideByZero"
proof -
  have a: "retrieveDataAndDispatchSegment envRetrievalFails rndDispatch rndCleanup
     (client0, segment0\<lparr>sectorSlotsStatus := [False, False]\<rparr>) = Inl IndexOutOfRange"
    by (simp add: retrieveDataAndDispatchSegment_def retrieveAndDispatch_def
        envRetrievalFails_fields retrieve_envRetrievalFails
        cleanupUploadSegment_def trimSlots_free_no_data segment0_fields Let_def
        sectorCompletedMemory_def)
  have b: "retrieveDataAndDispatchSegment envEncodeFails rndDispatch rndCleanup
       (client0, segment0\<lparr>sectorSlotsStatus := [False, False]\<rparr>) = Inl IndexOutOfRange"
    by (simp add: retrieveDataAndDispatchSegment_def retrieveAndDispatch_def
        envEncodeFails_fields retrieve_envEncodeFails
        cleanupUploadSegment_def trimSlots_free_no_data segment0_fields Let_def
        sectorCompletedMemory_def)
  have c: "cleanupUploadSegment e rnd
       (sc, segment0\<lparr>sectorSlotsStatus := [False, False]\<rparr>) = Inl IndexOutOfRange"
    by (simp add: cleanupUploadSegment_def trimSlots_free_no_data segment0_fields)
  have d: "randomAssignSectorTaskToWorker [] rnd
       (store, segment0\<lparr>sectorSlotsStatus := [False, False]\<rparr>) = Inl IntegerDivideByZero"
    by (simp add: randomAssignSectorTaskToWorker_def assignSlot_def upt_conv_Cons del: upt_Suc)
  have e: "dispatchSegment rnd (client0, segment0\<lparr>sectorSlotsStatus := [False, False]\<rparr>)
       = Inl IntegerDivideByZero"
    by (simp add: dispatchSegment_def client0_fields randomAssignSectorTaskToWorker_def
        assignSlot_def upt_conv_Cons del: upt_Suc)
  from a b c d e show ?thesis by (simp only: simp_thms)
qed

section \<open>One assignment round\<close>

lemma ready_withAssigned: "ready (withAssigned sid added w) = ready w"
  by (simp add: withAssigned_def)

lemma assignedTo_0: "assignedTo ws rnd store slots p 0 = []"
  by (simp add: assignedTo_def)

lemma assignedTo_Suc:
  "assignedTo ws rnd store slots p (Suc k) =
     assignedTo ws rnd store slots p k @
       (if \<not> slots ! k \<and> chosenWorker ws rnd k = p \<and> ready (store p) then [k] else [])"
  by (simp add: assignedTo_def)

lemma assignedStore_0: "assignedStore ws rnd store uc 0 = store"
  by (simp add: assignedStore_def assignedTo_0 withAssigned_def)

lemma assignedSlots_0: "assignedSlots ws rnd store slots 0 = slots"
  by (simp add: assignedSlots_def map_nth)

lemma length_assignedSlots: "length (assignedSlots ws rnd store slots k) = length slots"
  by (simp add: assignedSlots_def)

lemma assignedSlots_nth_ge:
  "k \<le> j \<Longrightarrow> j < length slots \<Longrightarrow> assignedSlots ws rnd store slots k ! j = slots ! j"
  by (simp add: assignedSlots_def)

lemma assignedSlots_Suc_same:
  "k < length slots \<Longrightarrow> slots ! k \<or> \<not> ready (store (chosenWorker ws rnd k)) \<Longrightarrow>
   assignedSlots ws rnd store slots (Suc k) = assignedSlots ws rnd store slots k"
  by (auto simp: assignedSlots_def less_Suc_eq)

lemma assignedSlots_Suc_claim:
  "k < length slots \<Longrightarrow> ready (store (chosenWorker ws rnd k)) \<Longrightarrow>
   assignedSlots ws rnd store slots (Suc k) = (assignedSlots ws rnd store slots k)[k := True]"
  by (rule nth_equalityI) (auto simp: assignedSlots_def less_Suc_eq nth_list_update)

lemma assignedStore_Suc_same:
  "sectorSlotsStatus uc ! k \<or> \<not> ready (store (chosenWorker ws rnd k)) \<Longrightarrow>
   assignedStore ws rnd store uc (Suc k) = assignedStore ws rnd store uc k"
  by (rule ext) (auto simp: assignedStore_def assignedTo_Suc)

lemma withAssigned_snoc:
  "withAssigned sid (added @ [k]) w =
     (withAssigned sid added w)\<lparr>sectorIndexMap :=
        (sectorIndexMap (withAssigned sid added w))(sid \<mapsto>
           (case sectorIndexMap (withAssigned sid added w) sid of
              Some indexes \<Rightarrow> indexes @ [int k]
            | None \<Rightarrow> [int k]))\<rparr>"
  by (cases "sectorIndexMap w sid") (simp_all add: withAssigned_def)

lemma assignedStore_Suc_claim:
  assumes "\<not> sectorSlotsStatus uc ! k" and "ready (store (chosenWorker ws rnd k))"
  shows "assignedStore ws rnd store uc (Suc k) =
     (assignedStore ws rnd store uc k)(chosenWorker ws rnd k :=
        (assignedStore ws rnd store uc k (chosenWorker ws rnd k))\<lparr>sectorIndexMap :=
           (sectorIndexMap (assignedStore ws rnd store uc k (chosenWorker ws rnd k)))(segid uc \<mapsto>
              (case sectorIndexMap (assignedStore ws rnd store uc k (chosenWorker ws rnd k)) (segid uc) of
                 Some indexes \<Rightarrow> indexes @ [int k]
               | None \<Rightarrow> [int k]))\<rparr>)"
proof (rule ext)
  fix p
  show "assignedStore ws rnd store uc (Suc k) p =
     ((assignedStore ws rnd store uc k)(chosenWorker ws rnd k :=
        (assignedStore ws rnd store uc k (chosenWorker ws rnd k))\<lparr>sectorIndexMap :=
           (sectorIndexMap (assignedStore ws rnd store uc k (chosenWorker ws rnd k)))(segid uc \<mapsto>
              (case sectorIndexMap (assignedStore ws rnd store uc k (chosenWorker ws rnd k)) (segid uc) of
                 Some indexes \<Rightarrow> indexes @ [int k]
               | None \<Rightarrow> [int k]))\<rparr>)) p"
  proof (cases "p = chosenWorker ws rnd k")
    case True
    with assms show ?thesis
      by (simp add: assignedStore_def assignedTo_Suc withAssigned_snoc)
  next
    case False
    then show ?thesis
      by (auto simp: assignedStore_def assignedTo_Suc)
  qed
qed

lemma assignSlot_step:
  assumes k: "k < length (sectorSlotsStatus uc)" and ws: "ws \<noteq> []"
    and nonneg: "0 \<le> goRem (wrapInt64 (int k + rnd k)) (int (length ws))"
  shows "assignSlot ws rnd k
           (assignedStore ws rnd store uc k,
            uc\<lparr>sectorSlotsStatus := assignedSlots ws rnd store (sectorSlotsStatus uc) k\<rparr>)
         = Inr (assignedStore ws rnd store uc (Suc k),
                uc\<lparr>sectorSlotsStatus := assignedSlots ws rnd store (sectorSlotsStatus uc) (Suc k)\<rparr>)"
proof (cases "sectorSlotsStatus uc ! k")
  case True
  with k ws show ?thesis
    by (simp add: assignSlot_def assignedSlots_nth_ge assignedSlots_Suc_same
        assignedStore_Suc_same Let_def)
next
  case free: False
  have rdy: "ready (assignedStore ws rnd store uc k p) = ready (store p)" for p
    by (simp add: assignedStore_def ready_withAssigned)
  show ?thesis
  proof (cases "ready (store (chosenWorker ws rnd k))")
    case True
    with k ws free nonneg show ?thesis
      using assignedStore_Suc_claim [of uc k store ws rnd, OF free True]
      by (simp add: assignSlot_def assignedSlots_nth_ge assignedSlots_Suc_claim Let_def rdy
          chosenWorker_def [symmetric])
  next
    case False
    with k ws free nonneg show ?thesis
      by (simp add: assignSlot_def assignedSlots_nth_ge assignedSlots_Suc_same
          assignedStore_Suc_same Let_def rdy chosenWorker_def [symmetric])
  qed
qed


lemma assignLoop_from:
  assumes ws: "ws \<noteq> []" and i: "i \<le> length (sectorSlotsStatus uc)"
    and nonneg: "\<forall>j<i. 0 \<le> goRem (wrapInt64 (int j + rnd j)) (int (length ws))"
  shows "k \<le> i \<Longrightarrow>
         assignLoop ws rnd [k ..< i]
           (assignedStore ws rnd store uc k,
            uc\<lparr>sectorSlotsStatus := assignedSlots ws rnd store (sectorSlotsStatus uc) k\<rparr>)
         = Inr (assignedStore ws rnd store uc i,
                uc\<lparr>sectorSlotsStatus := assignedSlots ws rnd store (sectorSlotsStatus uc) i\<rparr>)"
proof (induction "i - k" arbitrary: k)
  case 0
  then show ?case by simp
next
  case (Suc d)
  then have ki: "k < i" by simp
  with i have k: "k < length (sectorSlotsStatus uc)" by simp
  from ki nonneg have nn: "0 \<le> goRem (wrapInt64 (int k + rnd k)) (int (length ws))" by simp
  from ki have upt: "[k ..< i] = k # [Suc k ..< i]"
    by (simp add: upt_conv_Cons)
  from Suc have "d = i - Suc k" "Suc k \<le> i" by simp_all
  from Suc.hyps(1) [OF this] show ?case
    by (simp only: upt assignLoop.simps assignSlot_step [where store = store and rnd = rnd and k = k and uc = uc and ws = ws, OF k ws nn] sum.case)
qed

lemma randomAssign_result:
  assumes ws: "ws \<noteq> []"
    and nonneg: "\<forall>j<length (sectorSlotsStatus uc).
                   0 \<le> goRem (wrapInt64 (int j + rnd j)) (int (length ws))"
  shows "randomAssignSectorTaskToWorker ws rnd (store, uc)
         = Inr (assignedStore ws rnd store uc (length (sectorSlotsStatus uc)),
                uc\<lparr>sectorSlotsStatus :=
                     assignedSlots ws rnd store (sectorSlotsStatus uc) (length (sectorSlotsStatus uc))\<rparr>)"
proof -
  have "uc\<lparr>sectorSlotsStatus := sectorSlotsStatus uc\<rparr> = uc" by simp
  with assignLoop_from [where k = 0 and store = store and rnd = rnd and uc = uc and ws = ws
      and i = "length (sectorSlotsStatus uc)", OF ws order_refl nonneg]
  show ?thesis
    by (simp add: randomAssignSectorTaskToWorker_def assignedStore_0 assignedSlots_0)
qed

lemma wrapInt64_id: "0 \<le> x \<Longrightarrow> x < 2 ^ 63 \<Longrightarrow> wrapInt64 x = x"
  by (simp add: wrapInt64_def)

lemma goRem_nonneg: "0 \<le> a \<Longrightarrow> 0 < b \<Longrightarrow> goRem a b = a mod b"
  by (cases "a = 0") (simp_all add: goRem_def)

lemma workerIndex_plain:
  assumes "ws \<noteq> []" "0 \<le> r" "int i + r < 2 ^ 63"
  shows "goRem (wrapInt64 (int i + r)) (int (length ws)) = (int i + r) mod int (length ws)"
  using assms by (simp add: wrapInt64_id goRem_nonneg)

lemma assignedSlots_nth:
  "i < length slots \<Longrightarrow>
   assignedSlots ws rnd store slots (length slots) ! i
     = (slots ! i \<or> ready (store (chosenWorker ws rnd i)))"
  by (simp add: assignedSlots_def)

lemma sectorIndexMap_assignedStore:
  "sectorIndexMap (assignedStore ws rnd store uc k p) sid =
     (if sid = segid uc \<and> assignedTo ws rnd store (sectorSlotsStatus uc) p k \<noteq> []
      then Some ((case sectorIndexMap (store p) sid of None \<Rightarrow> [] | Some indexes \<Rightarrow> indexes)
                 @ map int (assignedTo ws rnd store (sectorSlotsStatus uc) p k))
      else sectorIndexMap (store p) sid)"
  by (simp add: assignedStore_def withAssigned_def)

text \<open>
  C7, as the code has it. With a non-empty worker list and no overflow of
  \<^verbatim>\<open>i + rand.Int()\<close>, every slot \<open>i\<close> is offered to exactly one worker, the one at
  index \<^verbatim>\<open>(i + rand.Int()) % len(workers)\<close>. A free slot is claimed, and its index
  appended to that worker's list for the segment, if and only if that one worker is
  ready; there is no search for the next ready worker. The workers' readiness is not
  changed.
\<close>

theorem randomAssign_asks_one_worker:
  assumes "ws \<noteq> []"
    and "\<forall>i<length (sectorSlotsStatus uc). 0 \<le> rnd i \<and> int i + rnd i < 2 ^ 63"
    and "slots = sectorSlotsStatus uc" and "n = length slots"
  shows "randomAssignSectorTaskToWorker ws rnd (store, uc)
           = Inr (assignedStore ws rnd store uc n,
                  uc\<lparr>sectorSlotsStatus := assignedSlots ws rnd store slots n\<rparr>)
       \<and> (\<forall>i<n. chosenWorker ws rnd i = ws ! nat ((int i + rnd i) mod int (length ws))
                \<and> assignedSlots ws rnd store slots n ! i
                    = (slots ! i \<or> ready (store (chosenWorker ws rnd i))))
       \<and> (\<forall>p. ready (assignedStore ws rnd store uc n p) = ready (store p)
              \<and> assignedTo ws rnd store slots p n
                  = filter (\<lambda>i. \<not> slots ! i \<and> chosenWorker ws rnd i = p \<and> ready (store p)) [0 ..< n]
              \<and> sectorIndexMap (assignedStore ws rnd store uc n p) (segid uc)
                  = (if assignedTo ws rnd store slots p n = []
                     then sectorIndexMap (store p) (segid uc)
                     else Some ((case sectorIndexMap (store p) (segid uc) of
                                   None \<Rightarrow> [] | Some indexes \<Rightarrow> indexes)
                                @ map int (assignedTo ws rnd store slots p n))))"
proof -
  have idx: "goRem (wrapInt64 (int j + rnd j)) (int (length ws)) = (int j + rnd j) mod int (length ws)"
    if "j < length (sectorSlotsStatus uc)" for j
    using workerIndex_plain [OF assms(1), of "rnd j" j] assms(2) that by simp
  have nonneg: "\<forall>j<length (sectorSlotsStatus uc).
                   0 \<le> goRem (wrapInt64 (int j + rnd j)) (int (length ws))"
    using idx assms(1) by simp
  have a: "randomAssignSectorTaskToWorker ws rnd (store, uc)
           = Inr (assignedStore ws rnd store uc n,
                  uc\<lparr>sectorSlotsStatus := assignedSlots ws rnd store slots n\<rparr>)"
    using randomAssign_result [where store = store and rnd = rnd and uc = uc and ws = ws,
        OF assms(1) nonneg] assms(3,4) by simp
  have b: "chosenWorker ws rnd i = ws ! nat ((int i + rnd i) mod int (length ws))
           \<and> assignedSlots ws rnd store slots n ! i
                = (slots ! i \<or> ready (store (chosenWorker ws rnd i)))"
    if "i < n" for i
    using that assms(3,4) idx [of i] by (simp add: chosenWorker_def assignedSlots_nth)
  have c: "ready (assignedStore ws rnd store uc n p) = ready (store p)
              \<and> assignedTo ws rnd store slots p n
                  = filter (\<lambda>i. \<not> slots ! i \<and> chosenWorker ws rnd i = p \<and> ready (store p)) [0 ..< n]
              \<and> sectorIndexMap (assignedStore ws rnd store uc n p) (segid uc)
                  = (if assignedTo ws rnd store slots p n = []
                     then sectorIndexMap (store p) (segid uc)
                     else Some ((case sectorIndexMap (store p) (segid uc) of
                                   None \<Rightarrow> [] | Some indexes \<Rightarrow> indexes)
                                @ map int (assignedTo ws rnd store slots p n)))" for p
  proof -
    have "ready (assignedStore ws rnd store uc n p) = ready (store p)"
      by (simp add: assignedStore_def ready_withAssigned)
    moreover have "assignedTo ws rnd store slots p n
        = filter (\<lambda>i. \<not> slots ! i \<and> chosenWorker ws rnd i = p \<and> ready (store p)) [0 ..< n]"
      by (simp add: assignedTo_def)
    moreover have "sectorIndexMap (assignedStore ws rnd store uc n p) (segid uc)
                  = (if assignedTo ws rnd store slots p n = []
                     then sectorIndexMap (store p) (segid uc)
                     else Some ((case sectorIndexMap (store p) (segid uc) of
                                   None \<Rightarrow> [] | Some indexes \<Rightarrow> indexes)
                                @ map int (assignedTo ws rnd store slots p n)))"
      using assms(3) by (simp add: sectorIndexMap_assignedStore)
    ultimately show ?thesis by (simp only: simp_thms)
  qed
  from a b c show ?thesis by blast
qed

lemma store2_ready: "ready (store2 p) = (p = 1)" "sectorIndexMap (store2 p) = Map.empty"
  by (simp_all add: store2_def)

theorem randomAssign_asks_one_worker_witness:
  "[0, 1] \<noteq> ([] :: wptr list)
   \<and> randomAssignSectorTaskToWorker [0, 1] (\<lambda>i. 1)
        (store2, segment0\<lparr>sectorSlotsStatus := [False, False]\<rparr>)
       = Inr (assignedStore [0, 1] (\<lambda>i. 1) store2
                (segment0\<lparr>sectorSlotsStatus := [False, False]\<rparr>) 2,
              segment0\<lparr>sectorSlotsStatus := [True, False]\<rparr>)
   \<and> sectorIndexMap (assignedStore [0, 1] (\<lambda>i. 1) store2
                (segment0\<lparr>sectorSlotsStatus := [False, False]\<rparr>) 2 1) \<lparr>fid = 1, index = 0\<rparr>
       = Some [0]
   \<and> sectorIndexMap (assignedStore [0, 1] (\<lambda>i. 1) store2
                (segment0\<lparr>sectorSlotsStatus := [False, False]\<rparr>) 2 0) \<lparr>fid = 1, index = 0\<rparr>
       = None"
proof -
  have h1: "[0, 1] \<noteq> ([] :: wptr list)" by simp
  have h2: "\<forall>i<length (sectorSlotsStatus (segment0\<lparr>sectorSlotsStatus := [False, False]\<rparr>)).
              0 \<le> (\<lambda>i. 1 :: int) i \<and> int i + (\<lambda>i. 1) i < 2 ^ 63"
    by simp
  have h3: "[False, False] = sectorSlotsStatus (segment0\<lparr>sectorSlotsStatus := [False, False]\<rparr>)"
    and h4: "2 = length [False, False]"
    by simp_all
  note t = randomAssign_asks_one_worker [OF h1 h2 h3 h4, of store2]
  have sl: "assignedSlots [0, 1] (\<lambda>i. 1) store2 [False, False] 2 = [True, False]"
    by (simp add: assignedSlots_def upt4 chosenWorker_def goRem_def wrapInt64_def store2_ready)
  have a0: "assignedTo [0, Suc 0] (\<lambda>i. 1) store2 [False, False] 0 2 = []"
    and a1: "assignedTo [0, Suc 0] (\<lambda>i. 1) store2 [False, False] (Suc 0) 2 = [0]"
    by (simp_all add: assignedTo_def upt4 chosenWorker_def goRem_def wrapInt64_def store2_ready)
  have a: "randomAssignSectorTaskToWorker [0, 1] (\<lambda>i. 1)
        (store2, segment0\<lparr>sectorSlotsStatus := [False, False]\<rparr>)
       = Inr (assignedStore [0, 1] (\<lambda>i. 1) store2
                (segment0\<lparr>sectorSlotsStatus := [False, False]\<rparr>) 2,
              segment0\<lparr>sectorSlotsStatus := [True, False]\<rparr>)"
    using t [THEN conjunct1, unfolded sl] by simp
  have b: "sectorIndexMap (assignedStore [0, 1] (\<lambda>i. 1) store2
                (segment0\<lparr>sectorSlotsStatus := [False, False]\<rparr>) 2 1) \<lparr>fid = 1, index = 0\<rparr>
       = Some [0]"
    by (simp add: sectorIndexMap_assignedStore a1 store2_ready segment0_fields)
  have c: "sectorIndexMap (assignedStore [0, 1] (\<lambda>i. 1) store2
                (segment0\<lparr>sectorSlotsStatus := [False, False]\<rparr>) 2 0) \<lparr>fid = 1, index = 0\<rparr>
       = None"
    by (simp add: sectorIndexMap_assignedStore a0 store2_ready segment0_fields)
  from h1 a b c show ?thesis by (simp only: simp_thms)
qed

text \<open>
  The claim as stated fails: with an idle worker 0 and a ready worker 1, the free slot 0
  drawn for worker 0 stays unclaimed although a worker of the list is ready.
\<close>

theorem randomAssign_no_first_fit_counterexample:
  "randomAssignSectorTaskToWorker [0, 1] (\<lambda>i. 0)
     (store2, segment0\<lparr>sectorSlotsStatus := [False]\<rparr>)
     = Inr (store2, segment0\<lparr>sectorSlotsStatus := [False]\<rparr>)
   \<and> ready (store2 1)"
  by (simp add: randomAssignSectorTaskToWorker_def assignSlot_def store2_def goRem_def
      wrapInt64_def)

section \<open>Cleanup of a released segment\<close>

lemma retrieve_Inr_fields:
  assumes "retrieveLogicalSegmentData e segment = Inr (Inr retrieved)"
  shows "retrieved = segment\<lparr>logicalSegmentData := logicalSegmentData retrieved\<rparr>"
  using assms
  by (auto simp: retrieveLogicalSegmentData_def downloadLogicalSegmentData_def Let_def
      split: if_splits sum.splits)

lemma trimSlot_released:
  "trimSlot S i (uc, a, m) = Inr (uc1, a1, m1) \<Longrightarrow> released uc1 = released uc"
  by (auto simp: trimSlot_def split: if_splits)

lemma trimLoop_released:
  "trimLoop S js (uc, a, m) = Inr (uc1, a1, m1) \<Longrightarrow> released uc1 = released uc"
proof (induction js arbitrary: uc a m)
  case Nil
  then show ?case by simp
next
  case (Cons j js)
  from Cons.prems obtain uc2 a2 m2 where
    s: "trimSlot S j (uc, a, m) = Inr (uc2, a2, m2)"
    and l: "trimLoop S js (uc2, a2, m2) = Inr (uc1, a1, m1)"
    by (auto split: sum.splits)
  from trimSlot_released [OF s] Cons.IH [OF l] show ?case by simp
qed

lemma assignSlot_released:
  "assignSlot ws rnd i (store, uc) = Inr (store1, uc1) \<Longrightarrow> released uc1 = released uc"
  by (auto simp: assignSlot_def Let_def split: if_splits)

lemma assignLoop_released:
  "assignLoop ws rnd js (store, uc) = Inr (store1, uc1) \<Longrightarrow> released uc1 = released uc"
proof (induction js arbitrary: store uc)
  case Nil
  then show ?case by simp
next
  case (Cons j js)
  from Cons.prems obtain store2 uc2 where
    s: "assignSlot ws rnd j (store, uc) = Inr (store2, uc2)"
    and l: "assignLoop ws rnd js (store2, uc2) = Inr (store1, uc1)"
    by (auto split: sum.splits)
  from assignSlot_released [OF s] Cons.IH [OF l] show ?case by simp
qed

lemma notifyBackupWorkers_effects:
  assumes "notifyBackupWorkers rnd (sc, uc) = Inr (sc1, uc1)"
  shows "released uc1 = released uc \<and> pendingSegments sc1 = pendingSegments sc
         \<and> events sc1 = events sc @ map SignalUploadChan (workerBackups uc)"
proof -
  from assms obtain store where
    r: "randomAssignSectorTaskToWorker (workerBackups uc) rnd
          (workers sc, uc\<lparr>workerBackups := []\<rparr>) = Inr (store, uc1)"
    and s: "sc1 = addEvents (map SignalUploadChan (workerBackups uc)) (sc\<lparr>workers := store\<rparr>)"
    by (auto simp: notifyBackupWorkers_def Let_def split: sum.splits)
  from r have "released uc1 = released uc"
    unfolding randomAssignSectorTaskToWorker_def by (auto dest: assignLoop_released)
  with s show ?thesis by (simp add: addEvents_def)
qed

lemma isReleaseEvent_signals: "filter isReleaseEvent (map SignalUploadChan ws) = []"
  by (induction ws) simp_all

lemma released_markReleased:
  "released (markReleased uc m) = (released uc \<or> IsSegmentUploadComplete uc)"
  by (auto simp: markReleased_def Let_def)

lemma cleanup_Inr:
  assumes "cleanupUploadSegment e rnd (sc, uc) = Inr (sc', uc')"
  obtains uc1 avail memRel sc3 where
    "trimSlots (SectorSize e) uc = Inr (uc1, avail, memRel)"
    "(if 0 < avail then notifyBackupWorkers rnd (sc, markReleased uc1 memRel)
      else Inr (sc, markReleased uc1 memRel)) = Inr (sc3, uc')"
    "sc' = finishCleanup e (IsSegmentUploadComplete uc1) (released uc1) memRel
             (memoryReleased (markReleased uc1 memRel)) (sc3, uc')"
  using assms
  by (auto simp: cleanupUploadSegment_def Let_def split: sum.splits)

lemma notifyPart_effects:
  assumes "(if 0 < avail then notifyBackupWorkers rnd (sc, uc) else Inr (sc, uc)) = Inr (sc3, uc3)"
  shows "released uc3 = released uc \<and> pendingSegments sc3 = pendingSegments sc
         \<and> (\<exists>ws. events sc3 = events sc @ map SignalUploadChan ws)"
proof (cases "0 < avail")
  case True
  with assms have "notifyBackupWorkers rnd (sc, uc) = Inr (sc3, uc3)" by simp
  from notifyBackupWorkers_effects [OF this] show ?thesis by blast
next
  case False
  with assms have "sc3 = sc" "uc3 = uc" by simp_all
  then show ?thesis by (auto intro: exI [where x = "[]"])
qed

lemma finishCleanup_no_release:
  assumes "\<not> (segmentComplete \<and> \<not> wasReleased)"
  shows "pendingSegments (finishCleanup e segmentComplete wasReleased memRel totalRel (sc, uc))
           = pendingSegments sc
       \<and> workers (finishCleanup e segmentComplete wasReleased memRel totalRel (sc, uc)) = workers sc
       \<and> events (finishCleanup e segmentComplete wasReleased memRel totalRel (sc, uc))
           = events sc @ (if 0 < memRel then [MemoryReturn memRel] else [])
               @ (if segmentComplete \<and> totalRel \<noteq> memoryNeeded uc then [LogMemoryNotReleased] else [])"
  using assms by (auto simp: finishCleanup_def Let_def addEvents_def)

lemma releaseSegment_effects:
  "pendingSegments (releaseSegment e (sc, uc)) = pendingSegments sc - {segid uc}
   \<and> (\<exists>es. events (releaseSegment e (sc, uc)) = events sc @ es
            \<and> length (filter isPendingDelete es) = 1)"
  by (simp add: releaseSegment_def updateUploadSegmentStuckStatus_def Let_def addEvents_def)

lemma finishCleanup_release:
  assumes "segmentComplete \<and> \<not> wasReleased"
  shows "pendingSegments (finishCleanup e segmentComplete wasReleased memRel totalRel (sc, uc))
           = pendingSegments sc - {segid uc}
       \<and> (\<exists>es. events (finishCleanup e segmentComplete wasReleased memRel totalRel (sc, uc))
                  = events sc @ es
                \<and> length (filter isPendingDelete es) = 1)"
proof -
  define sc1 where "sc1 = (if 0 < memRel then addEvents [MemoryReturn memRel] sc else sc)"
  have p1: "pendingSegments sc1 = pendingSegments sc"
    and e1: "events sc1 = events sc @ (if 0 < memRel then [MemoryReturn memRel] else [])"
    by (simp_all add: sc1_def addEvents_def)
  from releaseSegment_effects [of e sc1 uc] obtain es where
    p2: "pendingSegments (releaseSegment e (sc1, uc)) = pendingSegments sc1 - {segid uc}"
    and e2: "events (releaseSegment e (sc1, uc)) = events sc1 @ es"
    and d2: "length (filter isPendingDelete es) = 1" by blast
  have f: "finishCleanup e segmentComplete wasReleased memRel totalRel (sc, uc)
           = (if totalRel \<noteq> memoryNeeded uc
              then addEvents [LogMemoryNotReleased] (releaseSegment e (sc1, uc))
              else releaseSegment e (sc1, uc))"
    using assms by (simp add: finishCleanup_def Let_def sc1_def)
  show ?thesis
  proof (cases "totalRel \<noteq> memoryNeeded uc")
    case True
    with f p1 p2 e1 e2 d2 show ?thesis
      by (auto simp: addEvents_def
          intro!: exI [where x = "(if 0 < memRel then [MemoryReturn memRel] else []) @ es
                                    @ [LogMemoryNotReleased]"])
  next
    case False
    with f p1 p2 e1 e2 d2 show ?thesis
      by (auto intro!: exI [where x = "(if 0 < memRel then [MemoryReturn memRel] else []) @ es"])
  qed
qed

text \<open>What a cleanup that returns does with the release.\<close>

lemma cleanup_release_cases:
  assumes "cleanupUploadSegment e rnd (sc, uc) = Inr (sc', uc')"
  shows "\<exists>es. events sc' = events sc @ es
           \<and> (if released uc' \<and> \<not> released uc
               then length (filter isPendingDelete es) = 1
                    \<and> pendingSegments sc' = pendingSegments sc - {segid uc'}
               else released uc' = released uc \<and> filter isReleaseEvent es = []
                    \<and> pendingSegments sc' = pendingSegments sc)"
proof -
  from assms obtain uc1 avail memRel sc3 where
    t: "trimSlots (SectorSize e) uc = Inr (uc1, avail, memRel)"
    and n: "(if 0 < avail then notifyBackupWorkers rnd (sc, markReleased uc1 memRel)
             else Inr (sc, markReleased uc1 memRel)) = Inr (sc3, uc')"
    and f: "sc' = finishCleanup e (IsSegmentUploadComplete uc1) (released uc1) memRel
                    (memoryReleased (markReleased uc1 memRel)) (sc3, uc')"
    by (rule cleanup_Inr)
  have rel1: "released uc1 = released uc"
    using t unfolding trimSlots_def by (rule trimLoop_released)
  from notifyPart_effects [OF n] obtain ws where
    rel': "released uc' = (released uc \<or> IsSegmentUploadComplete uc1)"
    and p3: "pendingSegments sc3 = pendingSegments sc"
    and e3: "events sc3 = events sc @ map SignalUploadChan ws"
    by (auto simp: released_markReleased rel1)
  show ?thesis
  proof (cases "IsSegmentUploadComplete uc1 \<and> \<not> released uc1")
    case True
    from finishCleanup_release [OF True, of e memRel "memoryReleased (markReleased uc1 memRel)" sc3 uc']
    obtain es where "pendingSegments sc' = pendingSegments sc3 - {segid uc'}"
      "events sc' = events sc3 @ es" "length (filter isPendingDelete es) = 1"
      using f by blast
    with True rel1 rel' p3 e3 show ?thesis
      by (auto intro!: exI [where x = "map SignalUploadChan ws @ es"])
  next
    case False
    from finishCleanup_no_release [OF False, of e memRel "memoryReleased (markReleased uc1 memRel)" sc3 uc']
    have "pendingSegments sc' = pendingSegments sc3"
      "events sc' = events sc3 @ (if 0 < memRel then [MemoryReturn memRel] else [])
               @ (if IsSegmentUploadComplete uc1
                     \<and> memoryReleased (markReleased uc1 memRel) \<noteq> memoryNeeded uc'
                  then [LogMemoryNotReleased] else [])"
      using f by simp_all
    with False rel1 rel' p3 e3 show ?thesis
      by (auto simp: isReleaseEvent_signals)
  qed
qed


lemma trimLoop_all_claimed:
  "\<forall>j\<in>set js. sectorSlotsStatus uc ! j \<Longrightarrow> trimLoop S js (uc, a, m) = Inr (uc, a, m)"
  by (induction js) (simp_all add: trimSlot_def)

lemma trimSlots_all_claimed:
  assumes "\<forall>s\<in>set (sectorSlotsStatus uc). s"
  shows "trimSlots S uc = Inr (uc, 0, 0)"
  unfolding trimSlots_def using assms by (intro trimLoop_all_claimed) (simp add: all_set_conv_all_nth)

lemma markReleased_released: "released uc \<Longrightarrow> markReleased uc 0 = uc"
  by (simp add: markReleased_def Let_def)

lemma cleanup_released_all_claimed:
  assumes "released uc" and "\<forall>s\<in>set (sectorSlotsStatus uc). s"
  shows "cleanupUploadSegment e rnd (sc, uc) =
           Inr (if IsSegmentUploadComplete uc \<and> memoryReleased uc \<noteq> memoryNeeded uc
                then addEvents [LogMemoryNotReleased] sc else sc, uc)"
  using assms
  by (simp add: cleanupUploadSegment_def trimSlots_all_claimed markReleased_released
      finishCleanup_def Let_def)

text \<open>A released segment with no free slot: the cleanup changes nothing.\<close>

lemma noFreeSlot_iff: "noFreeSlot uc \<longleftrightarrow> (\<forall>s\<in>set (sectorSlotsStatus uc). s)"
  by (simp add: noFreeSlot_def list_all_iff)

lemma cleanup_released_noFreeSlot:
  assumes "released uc" and "noFreeSlot uc"
  shows "cleanupUploadSegment e rnd (sc, uc) =
           Inr (if IsSegmentUploadComplete uc \<and> memoryReleased uc \<noteq> memoryNeeded uc
                then addEvents [LogMemoryNotReleased] sc else sc, uc)"
  using assms by (simp add: cleanup_released_all_claimed noFreeSlot_iff)

text \<open>
  With no worker remaining the trimming loop keeps no slot free, so a cleanup that
  releases the segment leaves every slot claimed.
\<close>

lemma trimSlot_counters:
  "trimSlot S i (uc, a, m) = Inr (uc1, a1, m1) \<Longrightarrow>
   workersRemain uc1 = workersRemain uc \<and> sectorsCompletedNum uc1 = sectorsCompletedNum uc
   \<and> sectorsAllNeedNum uc1 = sectorsAllNeedNum uc"
  by (auto simp: trimSlot_def split: if_splits)

lemma trimLoop_counters:
  "trimLoop S js (uc, a, m) = Inr (uc1, a1, m1) \<Longrightarrow>
   workersRemain uc1 = workersRemain uc \<and> sectorsCompletedNum uc1 = sectorsCompletedNum uc
   \<and> sectorsAllNeedNum uc1 = sectorsAllNeedNum uc"
proof (induction js arbitrary: uc a m)
  case Nil
  then show ?case by simp
next
  case (Cons j js)
  from Cons.prems obtain uc2 a2 m2 where
    s: "trimSlot S j (uc, a, m) = Inr (uc2, a2, m2)"
    and l: "trimLoop S js (uc2, a2, m2) = Inr (uc1, a1, m1)"
    by (auto split: sum.splits)
  from trimSlot_counters [OF s] Cons.IH [OF l] show ?case by simp
qed

lemma assignSlot_counters:
  "assignSlot ws rnd i (store, uc) = Inr (store1, uc1) \<Longrightarrow>
   sectorsCompletedNum uc1 = sectorsCompletedNum uc \<and> sectorsAllNeedNum uc1 = sectorsAllNeedNum uc"
  by (auto simp: assignSlot_def Let_def split: if_splits)

lemma assignLoop_counters:
  "assignLoop ws rnd js (store, uc) = Inr (store1, uc1) \<Longrightarrow>
   sectorsCompletedNum uc1 = sectorsCompletedNum uc \<and> sectorsAllNeedNum uc1 = sectorsAllNeedNum uc"
proof (induction js arbitrary: store uc)
  case Nil
  then show ?case by simp
next
  case (Cons j js)
  from Cons.prems obtain store2 uc2 where
    s: "assignSlot ws rnd j (store, uc) = Inr (store2, uc2)"
    and l: "assignLoop ws rnd js (store2, uc2) = Inr (store1, uc1)"
    by (auto split: sum.splits)
  from assignSlot_counters [OF s] Cons.IH [OF l] show ?case by simp
qed

lemma markReleased_counters:
  "sectorsCompletedNum (markReleased uc m) = sectorsCompletedNum uc"
  "sectorsAllNeedNum (markReleased uc m) = sectorsAllNeedNum uc"
  "sectorSlotsStatus (markReleased uc m) = sectorSlotsStatus uc"
  by (simp_all add: markReleased_def Let_def)

lemma notifyPart_counters:
  assumes "(if 0 < avail then notifyBackupWorkers rnd (sc, uc) else Inr (sc, uc)) = Inr (sc3, uc3)"
  shows "sectorsCompletedNum uc3 = sectorsCompletedNum uc \<and> sectorsAllNeedNum uc3 = sectorsAllNeedNum uc"
proof (cases "0 < avail")
  case True
  with assms obtain store where
    "randomAssignSectorTaskToWorker (workerBackups uc) rnd
       (workers sc, uc\<lparr>workerBackups := []\<rparr>) = Inr (store, uc3)"
    by (auto simp: notifyBackupWorkers_def Let_def split: sum.splits)
  then show ?thesis
    unfolding randomAssignSectorTaskToWorker_def by (auto dest: assignLoop_counters)
next
  case False
  with assms show ?thesis by simp
qed

lemma trimSlot_none_kept:
  assumes "workersRemain uc \<le> a" and "trimSlot S i (uc, a, m) = Inr (uc1, a1, m1)"
    and "i < length (sectorSlotsStatus uc)"
  shows "a1 = a \<and> workersRemain uc1 = workersRemain uc
       \<and> length (sectorSlotsStatus uc1) = length (sectorSlotsStatus uc)
       \<and> sectorSlotsStatus uc1 ! i
       \<and> (\<forall>j. sectorSlotsStatus uc ! j \<longrightarrow> sectorSlotsStatus uc1 ! j)"
  using assms by (auto simp: trimSlot_def nth_list_update split: if_splits)

lemma trimLoop_none_kept:
  "workersRemain uc \<le> a \<Longrightarrow> trimLoop S js (uc, a, m) = Inr (uc1, a1, m1) \<Longrightarrow>
   \<forall>j\<in>set js. j < length (sectorSlotsStatus uc) \<Longrightarrow>
   a1 = a \<and> length (sectorSlotsStatus uc1) = length (sectorSlotsStatus uc)
   \<and> (\<forall>j. j \<in> set js \<or> sectorSlotsStatus uc ! j \<longrightarrow> sectorSlotsStatus uc1 ! j)"
proof (induction js arbitrary: uc m)
  case Nil
  then show ?case by simp
next
  case (Cons i js)
  from Cons.prems(2) obtain uc2 a2 m2 where
    s: "trimSlot S i (uc, a, m) = Inr (uc2, a2, m2)"
    and l: "trimLoop S js (uc2, a2, m2) = Inr (uc1, a1, m1)"
    by (auto split: sum.splits)
  from Cons.prems(3) have i: "i < length (sectorSlotsStatus uc)" by simp
  note k = trimSlot_none_kept [OF Cons.prems(1) s i]
  from k have a2: "a2 = a" and w2: "workersRemain uc2 \<le> a"
    and len2: "length (sectorSlotsStatus uc2) = length (sectorSlotsStatus uc)"
    and i2: "sectorSlotsStatus uc2 ! i"
    and mono2: "\<forall>j. sectorSlotsStatus uc ! j \<longrightarrow> sectorSlotsStatus uc2 ! j"
    using Cons.prems(1) by simp_all
  from Cons.prems(3) len2 have r: "\<forall>j\<in>set js. j < length (sectorSlotsStatus uc2)" by simp
  from Cons.IH [OF w2 l [unfolded a2] r] have
    "a1 = a" "length (sectorSlotsStatus uc1) = length (sectorSlotsStatus uc2)"
    "\<forall>j. j \<in> set js \<or> sectorSlotsStatus uc2 ! j \<longrightarrow> sectorSlotsStatus uc1 ! j"
    by simp_all
  with len2 i2 mono2 show ?case by auto
qed

lemma trimSlots_none_kept:
  assumes "trimSlots S uc = Inr (uc1, a, m)" and "workersRemain uc \<le> 0"
  shows "a = 0 \<and> noFreeSlot uc1"
proof -
  from trimLoop_none_kept [OF assms(2) assms(1) [unfolded trimSlots_def]]
  have "a = 0" "length (sectorSlotsStatus uc1) = length (sectorSlotsStatus uc)"
    "\<forall>j. j \<in> set [0 ..< length (sectorSlotsStatus uc)] \<or> sectorSlotsStatus uc ! j
         \<longrightarrow> sectorSlotsStatus uc1 ! j"
    by simp_all
  then show ?thesis by (simp add: noFreeSlot_def list_all_length)
qed

lemma cleanup_counters:
  assumes "cleanupUploadSegment e rnd (sc, uc) = Inr (sc', uc')"
  shows "sectorsCompletedNum uc' = sectorsCompletedNum uc \<and> sectorsAllNeedNum uc' = sectorsAllNeedNum uc"
proof -
  from assms obtain uc1 avail memRel sc3 where
    t: "trimSlots (SectorSize e) uc = Inr (uc1, avail, memRel)"
    and n: "(if 0 < avail then notifyBackupWorkers rnd (sc, markReleased uc1 memRel)
             else Inr (sc, markReleased uc1 memRel)) = Inr (sc3, uc')"
    by (rule cleanup_Inr)
  from trimLoop_counters [OF t [unfolded trimSlots_def]] notifyPart_counters [OF n]
  show ?thesis by (simp add: markReleased_counters)
qed

lemma cleanup_noFreeSlot:
  assumes "cleanupUploadSegment e rnd (sc, uc) = Inr (sc', uc')" and "noFreeSlot uc"
  shows "noFreeSlot uc'"
proof -
  from assms(2) have "trimSlots (SectorSize e) uc = Inr (uc, 0, 0)"
    by (simp add: trimSlots_all_claimed noFreeSlot_iff)
  with assms(1) have "uc' = markReleased uc 0"
    by (simp add: cleanupUploadSegment_def Let_def)
  with assms(2) show ?thesis by (simp add: noFreeSlot_def markReleased_counters)
qed

lemma cleanup_released_claimed:
  assumes c: "cleanupUploadSegment e rnd (sc, uc) = Inr (sc', uc')"
    and inv: "released uc \<or> sectorsCompletedNum uc = sectorsAllNeedNum uc \<longrightarrow> noFreeSlot uc"
  shows "released uc' \<or> sectorsCompletedNum uc' = sectorsAllNeedNum uc' \<longrightarrow> noFreeSlot uc'"
proof (cases "released uc \<or> sectorsCompletedNum uc = sectorsAllNeedNum uc")
  case True
  with inv have "noFreeSlot uc" by simp
  from cleanup_noFreeSlot [OF c this] show ?thesis by simp
next
  case False
  show ?thesis
  proof
    assume "released uc' \<or> sectorsCompletedNum uc' = sectorsAllNeedNum uc'"
    with False cleanup_counters [OF c] have rel': "released uc'" by simp
    from c obtain uc1 avail memRel sc3 where
      t: "trimSlots (SectorSize e) uc = Inr (uc1, avail, memRel)"
      and n: "(if 0 < avail then notifyBackupWorkers rnd (sc, markReleased uc1 memRel)
               else Inr (sc, markReleased uc1 memRel)) = Inr (sc3, uc')"
      by (rule cleanup_Inr)
    have rel1: "released uc1 = released uc"
      using t unfolding trimSlots_def by (rule trimLoop_released)
    note cnt = trimLoop_counters [OF t [unfolded trimSlots_def]]
    from notifyPart_effects [OF n] rel' rel1 False have "IsSegmentUploadComplete uc1"
      by (simp add: released_markReleased)
    with cnt False have "workersRemain uc \<le> 0"
      by (simp add: IsSegmentUploadComplete_def split: if_splits)
    from trimSlots_none_kept [OF t this] have a0: "avail = 0" and nf: "noFreeSlot uc1" by simp_all
    from n a0 have "uc' = markReleased uc1 memRel" by simp
    with nf show "noFreeSlot uc'" by (simp add: noFreeSlot_def markReleased_counters)
  qed
qed

text \<open>The other calls of a history neither release nor free a slot.\<close>

lemma keepsClaimed_noFreeSlot:
  "keepsClaimed (sectorSlotsStatus uc) (sectorSlotsStatus uc') \<Longrightarrow> noFreeSlot uc \<Longrightarrow> noFreeSlot uc'"
  by (auto simp: keepsClaimed_def noFreeSlot_def list_all_length list_all2_conv_all_nth)

lemma assignSlot_noFreeSlot:
  assumes "assignSlot ws rnd i (store, uc) = Inr (store1, uc1)" and "noFreeSlot uc"
  shows "noFreeSlot uc1"
proof -
  from assms(1) have "uc1 = uc \<or> uc1 = uc\<lparr>sectorSlotsStatus := (sectorSlotsStatus uc)[i := True]\<rparr>"
    by (auto simp: assignSlot_def Let_def split: if_splits)
  moreover have "set ((sectorSlotsStatus uc)[i := True]) \<subseteq> insert True (set (sectorSlotsStatus uc))"
    by (rule set_update_subset_insert)
  ultimately show ?thesis using assms(2) by (auto simp: noFreeSlot_iff)
qed

lemma assignLoop_noFreeSlot:
  "assignLoop ws rnd js (store, uc) = Inr (store1, uc1) \<Longrightarrow> noFreeSlot uc \<Longrightarrow> noFreeSlot uc1"
proof (induction js arbitrary: store uc)
  case Nil
  then show ?case by simp
next
  case (Cons j js)
  from Cons.prems(1) obtain store2 uc2 where
    s: "assignSlot ws rnd j (store, uc) = Inr (store2, uc2)"
    and l: "assignLoop ws rnd js (store2, uc2) = Inr (store1, uc1)"
    by (auto split: sum.splits)
  from assignSlot_noFreeSlot [OF s Cons.prems(2)] Cons.IH [OF l] show ?case by simp
qed

lemma dispatchSegment_effects:
  assumes "dispatchSegment rnd (sc, uc) = Inr (sc', uc')"
  shows "released uc' = released uc
       \<and> sectorsCompletedNum uc' = sectorsCompletedNum uc
       \<and> sectorsAllNeedNum uc' = sectorsAllNeedNum uc
       \<and> events sc' = events sc @ map SignalUploadChan (workerPool sc)
       \<and> (noFreeSlot uc \<longrightarrow> noFreeSlot uc')"
proof -
  define uc1 where
    "uc1 = uc\<lparr>workersRemain := wrapInt64 (workersRemain uc + int (length (workerPool sc)))\<rparr>"
  from assms obtain store where
    r: "randomAssignSectorTaskToWorker (workerPool sc) rnd (workers sc, uc1) = Inr (store, uc')"
    and s: "sc' = addEvents (map SignalUploadChan (workerPool sc))
                    (sc\<lparr>pendingSegments := insert (segid uc) (pendingSegments sc),
                        workers := store\<rparr>)"
    by (auto simp: dispatchSegment_def Let_def uc1_def split: sum.splits)
  from r have l: "assignLoop (workerPool sc) rnd [0 ..< length (sectorSlotsStatus uc1)]
                    (workers sc, uc1) = Inr (store, uc')"
    by (simp add: randomAssignSectorTaskToWorker_def)
  have "released uc' = released uc1" by (rule assignLoop_released [OF l])
  moreover have "noFreeSlot uc1 \<longrightarrow> noFreeSlot uc'"
    using assignLoop_noFreeSlot [OF l] by simp
  moreover note assignLoop_counters [OF l]
  ultimately show ?thesis using s by (simp add: uc1_def addEvents_def noFreeSlot_def)
qed

lemma encryptSlot_fields:
  "released (encryptSlot e i s) = released s"
  "sectorSlotsStatus (encryptSlot e i s) = sectorSlotsStatus s"
  "sectorsCompletedNum (encryptSlot e i s) = sectorsCompletedNum s"
  "sectorsAllNeedNum (encryptSlot e i s) = sectorsAllNeedNum s"
  by (simp_all add: encryptSlot_def split: option.splits)

lemma fold_encryptSlot_fields:
  "released (fold (encryptSlot e) js s) = released s
   \<and> sectorSlotsStatus (fold (encryptSlot e) js s) = sectorSlotsStatus s
   \<and> sectorsCompletedNum (fold (encryptSlot e) js s) = sectorsCompletedNum s
   \<and> sectorsAllNeedNum (fold (encryptSlot e) js s) = sectorsAllNeedNum s"
  by (induction js arbitrary: s) (simp_all add: encryptSlot_fields)

lemma retrieveAndDispatch_effects:
  assumes "retrieveAndDispatch e rnd (sc, segment) = Inr (sc', segment')"
  shows "released segment' = released segment
       \<and> sectorsCompletedNum segment' = sectorsCompletedNum segment
       \<and> sectorsAllNeedNum segment' = sectorsAllNeedNum segment
       \<and> (\<exists>es. events sc' = events sc @ es \<and> filter isReleaseEvent es = [])
       \<and> (noFreeSlot segment \<longrightarrow> noFreeSlot segment')"
proof (cases "retrieveLogicalSegmentData e segment")
  case (Inl p)
  with assms show ?thesis by (simp add: retrieveAndDispatch_def Let_def)
next
  case (Inr r)
  show ?thesis
  proof (cases r)
    case (Inl err)
    with Inr assms show ?thesis
      by (auto simp: retrieveAndDispatch_def Let_def addEvents_def noFreeSlot_def)
  next
    case retrieved: (Inr retrieved)
    from retrieve_Inr_fields [OF Inr [unfolded retrieved]] obtain buf where
      rt: "retrieved = segment\<lparr>logicalSegmentData := buf\<rparr>" by blast
    define bytes where "bytes = segmentBytes (SectorSize e) buf"
    define ecm where "ecm = fileSectorSize e * word_of_int (MinSectors e)"
    show ?thesis
    proof (cases "snd (encodeResult e bytes)")
      case True
      with Inr retrieved rt assms show ?thesis
        by (auto simp: retrieveAndDispatch_def Let_def addEvents_def noFreeSlot_def bytes_def)
    next
      case False
      define segment2 where
        "segment2 = segment\<lparr>logicalSegmentData := [], physicalSegmentData := fst (encodeResult e bytes),
                      memoryReleased := memoryReleased segment + ecm\<rparr>"
      define sc2 where "sc2 = addEvents [EncodeCall bytes, MemoryReturn ecm] sc"
      show ?thesis
      proof (cases "length (physicalSegmentData segment2) < length (sectorSlotsStatus segment2)")
        case True
        with False Inr retrieved rt assms have "sc' = sc2" "segment' = segment2"
          by (auto simp: retrieveAndDispatch_def Let_def addEvents_def bytes_def segment2_def
              sc2_def ecm_def)
        then show ?thesis by (simp add: sc2_def segment2_def addEvents_def noFreeSlot_def)
      next
        case long: False
        from long False Inr retrieved rt assms show ?thesis
          by (auto simp: retrieveAndDispatch_def Let_def addEvents_def bytes_def segment2_def
              noFreeSlot_def fold_encryptSlot_fields isReleaseEvent_signals
              split: if_splits dest!: dispatchSegment_effects)
      qed
    qed
  qed
qed

lemma retrieveData_cases:
  assumes "retrieveDataAndDispatchSegment e rndDispatch rndCleanup (sc, uc) = Inr (sc', uc')"
  obtains "sc' = sc" "uc' = uc"
  | sc1 uc1 where "retrieveAndDispatch e rndDispatch (sc, uc) = Inr (sc1, uc1)"
      "cleanupUploadSegment e rndCleanup (sc1, uc1) = Inr (sc', uc')"
  using assms
  by (auto simp: retrieveDataAndDispatchSegment_def split: if_splits sum.splits)

text \<open>One call of a history: the segment stays released, and is deleted at most when it
  becomes released; a released segment keeps its slots claimed.\<close>

lemma deletions_append:
  "events sc' = events sc @ es \<Longrightarrow>
   deletions sc' = deletions sc + length (filter isPendingDelete es)"
  by (simp add: deletions_def)

lemma no_release_no_delete: "filter isReleaseEvent es = [] \<Longrightarrow> filter isPendingDelete es = []"
proof (induction es)
  case Nil
  then show ?case by simp
next
  case (Cons ev es)
  then show ?case by (cases ev) (simp_all split: if_splits)
qed

lemma cleanup_deletions:
  assumes "cleanupUploadSegment e rnd (sc, uc) = Inr (sc', uc')"
  shows "(released uc \<longrightarrow> released uc')
       \<and> (deletions sc' = deletions sc
          \<or> \<not> released uc \<and> released uc' \<and> deletions sc' = deletions sc + 1)"
proof -
  from cleanup_release_cases [OF assms] obtain es where
    ev: "events sc' = events sc @ es"
    and c: "if released uc' \<and> \<not> released uc
            then length (filter isPendingDelete es) = 1
                 \<and> pendingSegments sc' = pendingSegments sc - {segid uc'}
            else released uc' = released uc \<and> filter isReleaseEvent es = []
                 \<and> pendingSegments sc' = pendingSegments sc"
    by blast
  show ?thesis
  proof (cases "released uc' \<and> \<not> released uc")
    case True
    with c deletions_append [OF ev] show ?thesis by simp
  next
    case False
    with c have "released uc' = released uc" "filter isPendingDelete es = []"
      by (simp_all add: no_release_no_delete)
    with deletions_append [OF ev] show ?thesis by auto
  qed
qed

lemma dispatch_deletions:
  assumes "dispatchSegment rnd (sc, uc) = Inr (sc', uc')"
  shows "released uc' = released uc \<and> deletions sc' = deletions sc"
proof -
  from dispatchSegment_effects [OF assms] have
    "released uc' = released uc" "events sc' = events sc @ map SignalUploadChan (workerPool sc)"
    by simp_all
  with deletions_append [OF this(2)] show ?thesis
    by (simp add: no_release_no_delete isReleaseEvent_signals)
qed

lemma retrieveAndDispatch_deletions:
  assumes "retrieveAndDispatch e rnd (sc, uc) = Inr (sc', uc')"
  shows "released uc' = released uc \<and> deletions sc' = deletions sc"
proof -
  from retrieveAndDispatch_effects [OF assms] obtain es where
    "released uc' = released uc" "events sc' = events sc @ es" "filter isReleaseEvent es = []"
    by blast
  with deletions_append [OF this(2)] show ?thesis by (simp add: no_release_no_delete)
qed

lemma retrieveData_deletions:
  assumes "retrieveDataAndDispatchSegment e rndDispatch rndCleanup (sc, uc) = Inr (sc', uc')"
  shows "(released uc \<longrightarrow> released uc')
       \<and> (deletions sc' = deletions sc
          \<or> \<not> released uc \<and> released uc' \<and> deletions sc' = deletions sc + 1)"
  using assms
proof (cases rule: retrieveData_cases)
  case 1
  then show ?thesis by simp
next
  case (2 sc1 uc1)
  from retrieveAndDispatch_deletions [OF 2(1)] cleanup_deletions [OF 2(2)] show ?thesis by simp
qed

lemma retrieveData_released_claimed:
  assumes "retrieveDataAndDispatchSegment e rndDispatch rndCleanup (sc, uc) = Inr (sc', uc')"
    and "released uc \<or> sectorsCompletedNum uc = sectorsAllNeedNum uc \<longrightarrow> noFreeSlot uc"
  shows "released uc' \<or> sectorsCompletedNum uc' = sectorsAllNeedNum uc' \<longrightarrow> noFreeSlot uc'"
  using assms(1)
proof (cases rule: retrieveData_cases)
  case 1
  with assms(2) show ?thesis by simp
next
  case (2 sc1 uc1)
  from retrieveAndDispatch_effects [OF 2(1)] assms(2)
  have "released uc1 \<or> sectorsCompletedNum uc1 = sectorsAllNeedNum uc1 \<longrightarrow> noFreeSlot uc1"
    by simp
  from cleanup_released_claimed [OF 2(2) this] show ?thesis .
qed

text \<open>A history.\<close>

lemma runSteps_deletions:
  "otherActivitiesKeepRelease steps (sc, uc) \<Longrightarrow> runSteps steps (sc, uc) = Inr (sc', uc') \<Longrightarrow>
   (released uc \<longrightarrow> released uc' \<and> deletions sc' = deletions sc)
   \<and> deletions sc' \<le> deletions sc + 1"
proof (induction steps arbitrary: sc uc)
  case Nil
  then show ?case by simp
next
  case (Cons st steps)
  show ?case
  proof (cases st)
    case (CleanupCall e rnd)
    with Cons.prems obtain sc1 uc1 where
      c: "cleanupUploadSegment e rnd (sc, uc) = Inr (sc1, uc1)"
      and r: "runSteps steps (sc1, uc1) = Inr (sc', uc')"
      by (auto split: sum.splits)
    from Cons.prems(1) CleanupCall c have k: "otherActivitiesKeepRelease steps (sc1, uc1)" by simp
    from Cons.IH [OF k r] cleanup_deletions [OF c] show ?thesis by auto
  next
    case (DispatchCall rnd)
    with Cons.prems obtain sc1 uc1 where
      c: "dispatchSegment rnd (sc, uc) = Inr (sc1, uc1)"
      and r: "runSteps steps (sc1, uc1) = Inr (sc', uc')"
      by (auto split: sum.splits)
    from Cons.prems(1) DispatchCall c have k: "otherActivitiesKeepRelease steps (sc1, uc1)" by simp
    from Cons.IH [OF k r] dispatch_deletions [OF c] show ?thesis by auto
  next
    case (RetrieveCall e rndDispatch rndCleanup)
    with Cons.prems obtain sc1 uc1 where
      c: "retrieveDataAndDispatchSegment e rndDispatch rndCleanup (sc, uc) = Inr (sc1, uc1)"
      and r: "runSteps steps (sc1, uc1) = Inr (sc', uc')"
      by (auto split: sum.splits)
    from Cons.prems(1) RetrieveCall c have k: "otherActivitiesKeepRelease steps (sc1, uc1)" by simp
    from Cons.IH [OF k r] retrieveData_deletions [OF c] show ?thesis by auto
  next
    case (OtherActivity f)
    obtain sc1 uc1 where f: "f (sc, uc) = (sc1, uc1)" by (cases "f (sc, uc)")
    with Cons.prems OtherActivity have
      r: "runSteps steps (sc1, uc1) = Inr (sc', uc')"
      and k: "otherActivitiesKeepRelease steps (sc1, uc1)" and kf: "keepsRelease f (sc, uc)"
      by simp_all
    from kf f have "released uc1 = released uc" "deletions sc1 = deletions sc"
      by (simp_all add: keepsRelease_def)
    with Cons.IH [OF k r] show ?thesis by simp
  qed
qed

lemma runSteps_released_claimed:
  "otherActivitiesKeepRelease steps (sc, uc) \<Longrightarrow> runSteps steps (sc, uc) = Inr (sc', uc') \<Longrightarrow>
   released uc \<or> sectorsCompletedNum uc = sectorsAllNeedNum uc \<longrightarrow> noFreeSlot uc \<Longrightarrow>
   released uc' \<or> sectorsCompletedNum uc' = sectorsAllNeedNum uc' \<longrightarrow> noFreeSlot uc'"
proof (induction steps arbitrary: sc uc)
  case Nil
  then show ?case by simp
next
  case (Cons st steps)
  show ?case
  proof (cases st)
    case (CleanupCall e rnd)
    with Cons.prems obtain sc1 uc1 where
      c: "cleanupUploadSegment e rnd (sc, uc) = Inr (sc1, uc1)"
      and r: "runSteps steps (sc1, uc1) = Inr (sc', uc')"
      by (auto split: sum.splits)
    from Cons.prems(1) CleanupCall c have k: "otherActivitiesKeepRelease steps (sc1, uc1)" by simp
    from Cons.IH [OF k r cleanup_released_claimed [OF c Cons.prems(3)]] show ?thesis .
  next
    case (DispatchCall rnd)
    with Cons.prems obtain sc1 uc1 where
      c: "dispatchSegment rnd (sc, uc) = Inr (sc1, uc1)"
      and r: "runSteps steps (sc1, uc1) = Inr (sc', uc')"
      by (auto split: sum.splits)
    from Cons.prems(1) DispatchCall c have k: "otherActivitiesKeepRelease steps (sc1, uc1)" by simp
    from dispatchSegment_effects [OF c] Cons.prems(3)
    have "released uc1 \<or> sectorsCompletedNum uc1 = sectorsAllNeedNum uc1 \<longrightarrow> noFreeSlot uc1"
      by simp
    from Cons.IH [OF k r this] show ?thesis .
  next
    case (RetrieveCall e rndDispatch rndCleanup)
    with Cons.prems obtain sc1 uc1 where
      c: "retrieveDataAndDispatchSegment e rndDispatch rndCleanup (sc, uc) = Inr (sc1, uc1)"
      and r: "runSteps steps (sc1, uc1) = Inr (sc', uc')"
      by (auto split: sum.splits)
    from Cons.prems(1) RetrieveCall c have k: "otherActivitiesKeepRelease steps (sc1, uc1)" by simp
    from Cons.IH [OF k r retrieveData_released_claimed [OF c Cons.prems(3)]] show ?thesis .
  next
    case (OtherActivity f)
    obtain sc1 uc1 where f: "f (sc, uc) = (sc1, uc1)" by (cases "f (sc, uc)")
    with Cons.prems OtherActivity have
      r: "runSteps steps (sc1, uc1) = Inr (sc', uc')"
      and k: "otherActivitiesKeepRelease steps (sc1, uc1)" and kf: "keepsRelease f (sc, uc)"
      by simp_all
    from kf f have "released uc1 = released uc"
      "released uc \<longrightarrow> keepsClaimed (sectorSlotsStatus uc) (sectorSlotsStatus uc1)"
      "uploadedSectorsClaimed uc1"
      by (simp_all add: keepsRelease_def)
    with Cons.prems(3)
    have "released uc1 \<or> sectorsCompletedNum uc1 = sectorsAllNeedNum uc1 \<longrightarrow> noFreeSlot uc1"
      by (auto simp: uploadedSectorsClaimed_def dest: keepsClaimed_noFreeSlot)
    from Cons.IH [OF k r this] show ?thesis .
  qed
qed

text \<open>The concrete history.\<close>

lemma ucR_fields:
  "sectorSlotsStatus ucR = [False]" "physicalSegmentData ucR = [[1]]" "workersRemain ucR = 0"
  "released ucR = False" "memoryReleased ucR = 0" "memoryNeeded ucR = 4194304"
  "sectorsUploadingNum ucR = 0" "sectorsCompletedNum ucR = 0" "sectorsAllNeedNum ucR = 2"
  "workerBackups ucR = []" "segid ucR = \<lparr>fid = 1, index = 0\<rparr>" "stuck ucR = False"
  "stuckRepair ucR = False"
  by (simp_all add: ucR_def segment0_fields)

lemma ucReleased_fields:
  "sectorSlotsStatus ucReleased = [True]" "released ucReleased"
  "memoryReleased ucReleased = 4194304" "memoryNeeded ucReleased = 4194304"
  by (simp_all add: ucReleased_def ucR_fields)

lemma cleanup_ucR:
  "cleanupUploadSegment env0 rnd (client0, ucR) = Inr (clientReleased, ucReleased)"
  by (simp add: cleanupUploadSegment_def trimSlots_def trimSlot_def markReleased_def
      IsSegmentUploadComplete_def finishCleanup_def releaseSegment_def
      updateUploadSegmentStuckStatus_def repair_2_0 addEvents_def wrapInt64_def Let_def
      ucR_fields env0_fields client0_fields clientReleased_def ucReleased_def)

lemma cleanup_ucReleased:
  "cleanupUploadSegment e rnd (sc, ucReleased) = Inr (sc, ucReleased)"
  by (simp add: cleanup_released_noFreeSlot noFreeSlot_def ucReleased_fields)

lemma runSteps_stepsW: "runSteps stepsW (client0, ucR) = Inr (clientReleased, ucReleased)"
  by (simp add: stepsW_def cleanup_ucR cleanup_ucReleased)

lemma stepsW_keep: "otherActivitiesKeepRelease stepsW (client0, ucR)"
  by (simp add: stepsW_def cleanup_ucR cleanup_ucReleased keepsRelease_def keepsClaimed_def
      uploadedSectorsClaimed_def noFreeSlot_def ucReleased_fields)

lemma deletions_clientReleased: "deletions client0 = 0" "deletions clientReleased = 1"
  by (simp_all add: deletions_def clientReleased_def client0_fields)

text \<open>
  C5. The released flag is set once. A call of \<^verbatim>\<open>cleanupUploadSegment\<close> on a
  segment that is already released, if it returns, leaves the flag set, does not update
  the stuck status, does not close the file entry and does not delete the segment from
  the pending set. In every history that starts with a segment not yet released whose
  uploaded sectors are claimed, a segment that has become released has no free slot, and
  a cleanup of it is a no-op: it returns the client and the segment as they are (only,
  when the memory accounts disagree, with the log line of the memory sanity check once
  more). Over any history the segment is deleted from the pending set at most once, and
  never once it is released.
\<close>

theorem cleanup_on_released_segment:
  "(released uc \<and> cleanupUploadSegment e rnd (sc, uc) = Inr (sc', uc') \<longrightarrow>
      released uc' \<and> pendingSegments sc' = pendingSegments sc
      \<and> (\<exists>es. events sc' = events sc @ es \<and> filter isReleaseEvent es = []))
   \<and> (otherActivitiesKeepRelease steps (sc0, uc0)
        \<and> \<not> released uc0 \<and> uploadedSectorsClaimed uc0
        \<and> runSteps steps (sc0, uc0) = Inr (sc1, uc1) \<and> released uc1 \<longrightarrow>
        noFreeSlot uc1
        \<and> cleanupUploadSegment e rnd (sc1, uc1) =
            Inr (if IsSegmentUploadComplete uc1 \<and> memoryReleased uc1 \<noteq> memoryNeeded uc1
                 then addEvents [LogMemoryNotReleased] sc1 else sc1, uc1))
   \<and> (otherActivitiesKeepRelease steps (sc0, uc0)
        \<and> runSteps steps (sc0, uc0) = Inr (sc1, uc1) \<longrightarrow>
        deletions sc1 \<le> deletions sc0 + 1
        \<and> (released uc0 \<longrightarrow> released uc1 \<and> deletions sc1 = deletions sc0))"
proof -
  have a: "released uc' \<and> pendingSegments sc' = pendingSegments sc
      \<and> (\<exists>es. events sc' = events sc @ es \<and> filter isReleaseEvent es = [])"
    if "released uc" "cleanupUploadSegment e rnd (sc, uc) = Inr (sc', uc')"
    using cleanup_release_cases [OF that(2)] that(1) by auto
  have b: "noFreeSlot uc1
        \<and> cleanupUploadSegment e rnd (sc1, uc1) =
            Inr (if IsSegmentUploadComplete uc1 \<and> memoryReleased uc1 \<noteq> memoryNeeded uc1
                 then addEvents [LogMemoryNotReleased] sc1 else sc1, uc1)"
    if "otherActivitiesKeepRelease steps (sc0, uc0)" "\<not> released uc0"
      "uploadedSectorsClaimed uc0" "runSteps steps (sc0, uc0) = Inr (sc1, uc1)" "released uc1"
  proof -
    from that(2,3)
    have "released uc0 \<or> sectorsCompletedNum uc0 = sectorsAllNeedNum uc0 \<longrightarrow> noFreeSlot uc0"
      by (simp add: uploadedSectorsClaimed_def)
    from runSteps_released_claimed [OF that(1) that(4) this] that(5) have nf: "noFreeSlot uc1"
      by simp
    with cleanup_released_noFreeSlot [OF that(5) nf] show ?thesis by simp
  qed
  have c: "deletions sc1 \<le> deletions sc0 + 1
        \<and> (released uc0 \<longrightarrow> released uc1 \<and> deletions sc1 = deletions sc0)"
    if "otherActivitiesKeepRelease steps (sc0, uc0)" "runSteps steps (sc0, uc0) = Inr (sc1, uc1)"
    using runSteps_deletions [OF that] by simp
  from a b c show ?thesis by blast
qed

theorem cleanup_on_released_segment_witness:
  "released ucReleased
   \<and> otherActivitiesKeepRelease stepsW (client0, ucR)
   \<and> \<not> released ucR \<and> uploadedSectorsClaimed ucR
   \<and> runSteps stepsW (client0, ucR) = Inr (clientReleased, ucReleased)
   \<and> noFreeSlot ucReleased
   \<and> cleanupUploadSegment env0 (\<lambda>i. 0) (clientReleased, ucReleased)
       = Inr (clientReleased, ucReleased)
   \<and> deletions clientReleased \<le> deletions client0 + 1"
proof -
  have k: "otherActivitiesKeepRelease stepsW (client0, ucR)"
    by (rule stepsW_keep)
  have n: "\<not> released ucR" by (simp add: ucR_fields)
  have u: "uploadedSectorsClaimed ucR" by (simp add: uploadedSectorsClaimed_def ucR_fields)
  have r: "runSteps stepsW (client0, ucR) = Inr (clientReleased, ucReleased)"
    by (rule runSteps_stepsW)
  have l: "released ucReleased" by (simp add: ucReleased_fields)
  have c: "cleanupUploadSegment env0 (\<lambda>i. 0) (clientReleased, ucReleased)
       = Inr (clientReleased, ucReleased)"
    by (rule cleanup_ucReleased)
  note t = cleanup_on_released_segment
    [where uc = ucReleased and e = env0 and rnd = "\<lambda>i. 0" and sc = clientReleased
       and sc' = clientReleased and uc' = ucReleased and steps = stepsW and ?uc0.0 = ucR
       and ?sc0.0 = client0 and ?sc1.0 = clientReleased and ?uc1.0 = ucReleased]
  from t [THEN conjunct1] l c have a: "released ucReleased" by blast
  from t [THEN conjunct2, THEN conjunct1] k n u r l have b: "noFreeSlot ucReleased" by blast
  from t [THEN conjunct2, THEN conjunct2] k r
  have d: "deletions clientReleased \<le> deletions client0 + 1" by blast
  from a k n u r b c d show ?thesis by (simp only: simp_thms)
qed

section \<open>The stuck status after a repair\<close>

lemma stuckStatus_events:
  "events (updateUploadSegmentStuckStatus e sc uc) =
     events sc @
       (if \<not> successfulRepair (RemoteRepairDownloadThreshold e) (sectorsAllNeedNum uc)
                (sectorsCompletedNum uc) \<and> clientOffline e
        then []
        else [SetStuckByIndex (wrapInt64 (int (index (segid uc))))
                (\<not> successfulRepair (RemoteRepairDownloadThreshold e) (sectorsAllNeedNum uc)
                     (sectorsCompletedNum uc)),
              InitAndUpdateDirMetadata]
             @ (if stuck uc \<and> stuckRepair uc \<and> \<not> stopBeforeSignal e
                   \<and> successfulRepair (RemoteRepairDownloadThreshold e) (sectorsAllNeedNum uc)
                        (sectorsCompletedNum uc)
                then [StuckSegmentSuccess] else []))"
  by (simp add: updateUploadSegmentStuckStatus_def Let_def addEvents_def)

text \<open>
  C3, as the code has it. \<^verbatim>\<open>updateUploadSegmentStuckStatus\<close> takes the repair as
  successful exactly when \<^verbatim>\<open>(1 - RemoteRepairDownloadThreshold) * float64(sectorsAllNeedNum)
  <= float64(sectorsCompletedNum)\<close> holds in float64 arithmetic. After a successful repair it
  marks the segment not stuck; after an unsuccessful one it marks it stuck, unless the client
  is offline or shutting down: then it returns without touching the stuck flag. With
  threshold 0.1 and ten sectors needed, nine completed sectors give not stuck, and eight give
  stuck for a client that is online.
\<close>

theorem stuck_status_follows_repair_unless_offline:
  "events (updateUploadSegmentStuckStatus e sc uc) =
     events sc @
       (if \<not> successfulRepair (RemoteRepairDownloadThreshold e) (sectorsAllNeedNum uc)
                (sectorsCompletedNum uc) \<and> clientOffline e
        then []
        else [SetStuckByIndex (wrapInt64 (int (index (segid uc))))
                (\<not> successfulRepair (RemoteRepairDownloadThreshold e) (sectorsAllNeedNum uc)
                     (sectorsCompletedNum uc)),
              InitAndUpdateDirMetadata]
             @ (if stuck uc \<and> stuckRepair uc \<and> \<not> stopBeforeSignal e
                   \<and> successfulRepair (RemoteRepairDownloadThreshold e) (sectorsAllNeedNum uc)
                        (sectorsCompletedNum uc)
                then [StuckSegmentSuccess] else []))
   \<and> successfulRepair threshold sectorsNeedNum sectorsCompleteNum =
       leFloat64 (mulFloat64 (roundFloat64 (1 - threshold)) (float64_of_int sectorsNeedNum))
         (float64_of_int sectorsCompleteNum)
   \<and> successfulRepair (1 / 10) 10 9
   \<and> successfulRepair (1 / 10) 10 8 = False
   \<and> events (updateUploadSegmentStuckStatus env0 client0
         (segment0\<lparr>sectorsAllNeedNum := 10, sectorsCompletedNum := 9\<rparr>))
       = [SetStuckByIndex 0 False, InitAndUpdateDirMetadata]
   \<and> events (updateUploadSegmentStuckStatus env0 client0
         (segment0\<lparr>sectorsAllNeedNum := 10, sectorsCompletedNum := 8\<rparr>))
       = [SetStuckByIndex 0 True, InitAndUpdateDirMetadata]"
proof -
  have a: "events (updateUploadSegmentStuckStatus env0 client0
         (segment0\<lparr>sectorsAllNeedNum := 10, sectorsCompletedNum := 9\<rparr>))
       = [SetStuckByIndex 0 False, InitAndUpdateDirMetadata]"
    by (simp add: stuckStatus_events repair_examples env0_fields client0_fields segment0_fields
        wrapInt64_def)
  have b: "events (updateUploadSegmentStuckStatus env0 client0
         (segment0\<lparr>sectorsAllNeedNum := 10, sectorsCompletedNum := 8\<rparr>))
       = [SetStuckByIndex 0 True, InitAndUpdateDirMetadata]"
    by (simp add: stuckStatus_events repair_examples env0_fields client0_fields segment0_fields
        wrapInt64_def)
  from a b stuckStatus_events [of e sc uc] repair_examples(1,2) show ?thesis
    by (simp only: successfulRepair_def simp_thms)
qed

text \<open>
  The claim as stated fails: with eight of ten sectors completed the repair is
  unsuccessful, and for an offline client the file is not marked stuck; no call is made.
\<close>

theorem stuck_status_offline_counterexample:
  "successfulRepair (1 / 10) 10 8 = False
   \<and> events (updateUploadSegmentStuckStatus (env0\<lparr>clientOffline := True\<rparr>) client0
         (segment0\<lparr>sectorsAllNeedNum := 10, sectorsCompletedNum := 8\<rparr>)) = []"
  by (simp add: stuckStatus_events repair_examples env0_fields client0_fields segment0_fields)

section \<open>Retrieval and encoding failures\<close>

lemma fold_append: "fold (\<lambda>b acc. acc @ b) bs init = init @ concat bs"
  by (induction bs arbitrary: init) simp_all

lemma segmentBytes_eq:
  "segmentBytes sectorSize logical =
     replicate (unat (of_nat (length logical) * sectorSize)) 0 @ concat logical"
  by (simp add: segmentBytes_def fold_append)

lemma sectorCompletedMemory_claimed2:
  "sectorCompletedMemory 4194304 [True, True] = 8388608"
  "sectorCompletedMemory S [] = 0"
  by (simp_all add: sectorCompletedMemory_def)

lemma retrieve_failure:
  assumes "retrieveLogicalSegmentData e segment = Inr (Inl err)"
  shows "retrieveAndDispatch e rnd (sc, segment) =
     Inr (addEvents [MemoryReturn (fileSectorSize e * word_of_int (MinSectors e)
                       + sectorCompletedMemory (SectorSize e) (sectorSlotsStatus segment))] sc,
          segment\<lparr>logicalSegmentData := [], workersRemain := 0,
            memoryReleased := memoryReleased segment
              + (fileSectorSize e * word_of_int (MinSectors e)
                 + sectorCompletedMemory (SectorSize e) (sectorSlotsStatus segment))\<rparr>)"
  using assms by (simp add: retrieveAndDispatch_def Let_def)

lemma encode_failure:
  assumes "retrieveLogicalSegmentData e segment = Inr (Inr retrieved)"
    and "snd (encodeResult e (segmentBytes (SectorSize e) (logicalSegmentData retrieved)))"
  shows "retrieveAndDispatch e rnd (sc, segment) =
     Inr (addEvents [EncodeCall (segmentBytes (SectorSize e) (logicalSegmentData retrieved)),
                     MemoryReturn (sectorCompletedMemory (SectorSize e) (sectorSlotsStatus segment))] sc,
          segment\<lparr>logicalSegmentData := logicalSegmentData retrieved, workersRemain := 0,
            memoryReleased := memoryReleased segment
              + sectorCompletedMemory (SectorSize e) (sectorSlotsStatus segment),
            physicalSegmentData :=
              map (\<lambda>_. [])
                (fst (encodeResult e (segmentBytes (SectorSize e) (logicalSegmentData retrieved))))\<rparr>)"
proof -
  from retrieve_Inr_fields [OF assms(1)] obtain buf where
    r: "retrieved = segment\<lparr>logicalSegmentData := buf\<rparr>" by blast
  with assms show ?thesis
    by (simp add: retrieveAndDispatch_def Let_def addEvents_def)
qed

text \<open>
  C4. The claim is that a failed encoding aborts like a failed retrieval, returning
  the erasure-coding memory plus the completed-sector memory. In the code both set
  \<^verbatim>\<open>workersRemain\<close> to 0, but the encoding failure returns and books only the
  completed-sector memory: the erasure-coding memory is returned after the error check,
  on the success path alone.
\<close>

theorem encode_failure_keeps_coding_memory:
  assumes "retrieveLogicalSegmentData e segment = Inr (Inr retrieved)"
    and "snd (encodeResult e (segmentBytes (SectorSize e) (logicalSegmentData retrieved)))"
    and "retrieveLogicalSegmentData e' segment = Inr (Inl err)"
    and "SectorSize e' = SectorSize e" and "fileSectorSize e' = fileSectorSize e"
    and "MinSectors e' = MinSectors e"
    and "erasureCodingMemory = fileSectorSize e * word_of_int (MinSectors e)"
    and "sectorCompletedMem = sectorCompletedMemory (SectorSize e) (sectorSlotsStatus segment)"
  shows "retrieveAndDispatch e rnd (sc, segment) =
     Inr (addEvents [EncodeCall (segmentBytes (SectorSize e) (logicalSegmentData retrieved)),
                     MemoryReturn sectorCompletedMem] sc,
          segment\<lparr>logicalSegmentData := logicalSegmentData retrieved, workersRemain := 0,
            memoryReleased := memoryReleased segment + sectorCompletedMem,
            physicalSegmentData :=
              map (\<lambda>_. [])
                (fst (encodeResult e (segmentBytes (SectorSize e) (logicalSegmentData retrieved))))\<rparr>)
   \<and> retrieveAndDispatch e' rnd (sc, segment) =
     Inr (addEvents [MemoryReturn (erasureCodingMemory + sectorCompletedMem)] sc,
          segment\<lparr>logicalSegmentData := [], workersRemain := 0,
            memoryReleased := memoryReleased segment
              + (erasureCodingMemory + sectorCompletedMem)\<rparr>)"
  using encode_failure [OF assms(1,2), of rnd sc]
    retrieve_failure [OF assms(3), of rnd sc] assms(4-8)
  by simp

theorem encode_failure_keeps_coding_memory_witness:
  "retrieveLogicalSegmentData envEncodeFails (segment0\<lparr>sectorSlotsStatus := [True, True]\<rparr>)
     = Inr (Inr (segment0\<lparr>sectorSlotsStatus := [True, True], logicalSegmentData := [[1, 2]]\<rparr>))
   \<and> retrieveLogicalSegmentData envRetrievalFails (segment0\<lparr>sectorSlotsStatus := [True, True]\<rparr>)
     = Inr (Inl DownloadFailed)
   \<and> retrieveAndDispatch envEncodeFails (\<lambda>i. 0)
        (client0, segment0\<lparr>sectorSlotsStatus := [True, True]\<rparr>) =
     Inr (client0\<lparr>events := [EncodeCall (segmentBytes 4194304 [[1, 2]]), MemoryReturn 8388608]\<rparr>,
          segment0\<lparr>sectorSlotsStatus := [True, True], logicalSegmentData := [[1, 2]],
            workersRemain := 0, memoryReleased := 8388608, physicalSegmentData := []\<rparr>)
   \<and> retrieveAndDispatch envRetrievalFails (\<lambda>i. 0)
        (client0, segment0\<lparr>sectorSlotsStatus := [True, True]\<rparr>) =
     Inr (client0\<lparr>events := [MemoryReturn 12582912]\<rparr>,
          segment0\<lparr>sectorSlotsStatus := [True, True], logicalSegmentData := [],
            workersRemain := 0, memoryReleased := 12582912\<rparr>)"
proof -
  have h1: "retrieveLogicalSegmentData envEncodeFails (segment0\<lparr>sectorSlotsStatus := [True, True]\<rparr>)
     = Inr (Inr (segment0\<lparr>sectorSlotsStatus := [True, True], logicalSegmentData := [[1, 2]]\<rparr>))"
    by (simp add: retrieve_envEncodeFails)
  have h2: "snd (encodeResult envEncodeFails
                  (segmentBytes (SectorSize envEncodeFails)
                     (logicalSegmentData
                        (segment0\<lparr>sectorSlotsStatus := [True, True],
                           logicalSegmentData := [[1, 2]]\<rparr>))))"
    by (simp add: envEncodeFails_fields)
  have h3: "retrieveLogicalSegmentData envRetrievalFails
              (segment0\<lparr>sectorSlotsStatus := [True, True]\<rparr>) = Inr (Inl DownloadFailed)"
    by (simp add: retrieve_envRetrievalFails segment0_fields needDownload_example)
  have h4: "SectorSize envRetrievalFails = SectorSize envEncodeFails"
    and h5: "fileSectorSize envRetrievalFails = fileSectorSize envEncodeFails"
    and h6: "MinSectors envRetrievalFails = MinSectors envEncodeFails"
    by (simp_all add: envRetrievalFails_fields envEncodeFails_fields)
  note t = encode_failure_keeps_coding_memory [OF h1 h2 h3 h4 h5 h6 refl refl, of "\<lambda>i. 0" client0]
  have a: "retrieveAndDispatch envEncodeFails (\<lambda>i. 0)
        (client0, segment0\<lparr>sectorSlotsStatus := [True, True]\<rparr>) =
     Inr (client0\<lparr>events := [EncodeCall (segmentBytes 4194304 [[1, 2]]), MemoryReturn 8388608]\<rparr>,
          segment0\<lparr>sectorSlotsStatus := [True, True], logicalSegmentData := [[1, 2]],
            workersRemain := 0, memoryReleased := 8388608, physicalSegmentData := []\<rparr>)"
    using t [THEN conjunct1]
    by (simp add: envEncodeFails_fields segment0_fields client0_fields
        sectorCompletedMemory_claimed2 addEvents_def)
  have b: "retrieveAndDispatch envRetrievalFails (\<lambda>i. 0)
        (client0, segment0\<lparr>sectorSlotsStatus := [True, True]\<rparr>) =
     Inr (client0\<lparr>events := [MemoryReturn 12582912]\<rparr>,
          segment0\<lparr>sectorSlotsStatus := [True, True], logicalSegmentData := [],
            workersRemain := 0, memoryReleased := 12582912\<rparr>)"
    using t [THEN conjunct2]
    by (simp add: envEncodeFails_fields segment0_fields client0_fields
        sectorCompletedMemory_claimed2 addEvents_def)
  from h1 h3 a b show ?thesis by (simp only: simp_thms)
qed

text \<open>
  C8. The claim is that the bytes passed to \<^verbatim>\<open>Encode\<close> are the concatenation of
  the logical buffers and nothing else. The code allocates the slice with a length, not
  a capacity, and appends: the encoder receives \<^verbatim>\<open>len(logicalSegmentData) *
  storage.SectorSize\<close> zero bytes followed by the concatenation.
\<close>

theorem encode_gets_zero_prefix:
  "segmentBytes sectorSize logical =
     replicate (unat (of_nat (length logical) * sectorSize)) 0 @ concat logical
   \<and> segmentBytes 4194304 [[1, 2]] = replicate 4194304 0 @ [1, 2]
   \<and> length (segmentBytes 4194304 [[1, 2]]) = 4194306
   \<and> segmentBytes 4194304 [[1, 2]] \<noteq> concat [[1, 2]]
   \<and> retrieveAndDispatch env0 rnd (client0, segment0) =
       Inr (client0\<lparr>pendingSegments := {\<lparr>fid = 1, index = 0\<rparr>},
              events := [EncodeCall (replicate 4194304 0 @ [1, 2]), MemoryReturn 4194304]\<rparr>,
            segment0\<lparr>physicalSegmentData := [[1], [2]], memoryReleased := 4194304\<rparr>)"
proof -
  have a: "segmentBytes 4194304 [[1, 2]] = replicate 4194304 0 @ [1, 2]"
    by (simp add: segmentBytes_eq)
  have b: "length (segmentBytes 4194304 [[1, 2]]) = 4194306"
    by (simp add: a)
  have c: "segmentBytes 4194304 [[1, 2]] \<noteq> concat [[1, 2]]"
  proof
    assume "segmentBytes 4194304 [[1, 2]] = concat [[1, 2]]"
    then have "length (segmentBytes 4194304 [[1, 2]]) = length (concat [[1, 2 :: byte]])" by simp
    with b show False by simp
  qed
  have d: "retrieveAndDispatch env0 rnd (client0, segment0) =
       Inr (client0\<lparr>pendingSegments := {\<lparr>fid = 1, index = 0\<rparr>},
              events := [EncodeCall (replicate 4194304 0 @ [1, 2]), MemoryReturn 4194304]\<rparr>,
            segment0\<lparr>physicalSegmentData := [[1], [2]], memoryReleased := 4194304\<rparr>)"
    by (simp add: retrieveAndDispatch_def retrieve_env0 Let_def env0_fields segment0_def
        client0_fields sectorCompletedMemory_claimed2 a dispatchSegment_def
        randomAssignSectorTaskToWorker_def addEvents_def wrapInt64_def)
  from a b c d segmentBytes_eq [of sectorSize logical] show ?thesis by (simp only: simp_thms)
qed

lemma cleanup_all_claimed:
  assumes "\<forall>s\<in>set (sectorSlotsStatus uc). s"
  shows "cleanupUploadSegment e rnd (sc, uc) =
     Inr (finishCleanup e (IsSegmentUploadComplete uc) (released uc) 0
            (memoryReleased (markReleased uc 0)) (sc, markReleased uc 0),
          markReleased uc 0)"
  using assms by (simp add: cleanupUploadSegment_def trimSlots_all_claimed Let_def)

text \<open>
  C1. The claim is that a segment that has become complete has returned exactly
  \<^verbatim>\<open>memoryNeeded\<close>, on failure paths as on the success path. For a segment with two
  claimed slots that needs three sector sizes (one for erasure coding), a retrieval
  failure ends with \<^verbatim>\<open>memoryReleased = memoryNeeded\<close>; an encoding failure ends
  complete and released with one sector size never returned, and the sanity check of
  the cleanup logs it.
\<close>

theorem encode_failure_leaks_memory:
  "retrieveDataAndDispatchSegment envEncodeFails rndDispatch rndCleanup
     (client0, segment0\<lparr>sectorSlotsStatus := [True, True], memoryNeeded := 12582912\<rparr>)
   = Inr (client0\<lparr>events :=
            [EncodeCall (segmentBytes 4194304 [[1, 2]]), MemoryReturn 8388608,
             SetStuckByIndex 0 True, InitAndUpdateDirMetadata, FileEntryClose,
             PendingDelete \<lparr>fid = 1, index = 0\<rparr>, LogMemoryNotReleased]\<rparr>,
          segment0\<lparr>sectorSlotsStatus := [True, True], memoryNeeded := 12582912,
            logicalSegmentData := [[1, 2]], workersRemain := 0, memoryReleased := 8388608,
            released := True\<rparr>)
   \<and> IsSegmentUploadComplete
        (segment0\<lparr>sectorSlotsStatus := [True, True], memoryNeeded := 12582912,
            logicalSegmentData := [[1, 2]], workersRemain := 0, memoryReleased := 8388608,
            released := True\<rparr>)
   \<and> retrieveDataAndDispatchSegment envRetrievalFails rndDispatch rndCleanup
     (client0, segment0\<lparr>sectorSlotsStatus := [True, True], memoryNeeded := 12582912\<rparr>)
   = Inr (client0\<lparr>events :=
            [MemoryReturn 12582912,
             SetStuckByIndex 0 True, InitAndUpdateDirMetadata, FileEntryClose,
             PendingDelete \<lparr>fid = 1, index = 0\<rparr>]\<rparr>,
          segment0\<lparr>sectorSlotsStatus := [True, True], memoryNeeded := 12582912,
            workersRemain := 0, memoryReleased := 12582912, released := True\<rparr>)"
proof -
  have a: "retrieveAndDispatch envEncodeFails rndDispatch
        (client0, segment0\<lparr>sectorSlotsStatus := [True, True], memoryNeeded := 12582912\<rparr>) =
     Inr (client0\<lparr>events := [EncodeCall (segmentBytes 4194304 [[1, 2]]), MemoryReturn 8388608]\<rparr>,
          segment0\<lparr>sectorSlotsStatus := [True, True], memoryNeeded := 12582912,
            logicalSegmentData := [[1, 2]], workersRemain := 0, memoryReleased := 8388608\<rparr>)"
    by (simp add: encode_failure [OF retrieve_envEncodeFails] envEncodeFails_fields segment0_def
        client0_fields sectorCompletedMemory_claimed2 addEvents_def)
  have b: "retrieveAndDispatch envRetrievalFails rndDispatch
        (client0, segment0\<lparr>sectorSlotsStatus := [True, True], memoryNeeded := 12582912\<rparr>) =
     Inr (client0\<lparr>events := [MemoryReturn 12582912]\<rparr>,
          segment0\<lparr>sectorSlotsStatus := [True, True], memoryNeeded := 12582912,
            workersRemain := 0, memoryReleased := 12582912\<rparr>)"
    by (simp add: retrieve_failure [OF retrieve_envRetrievalFails] envRetrievalFails_fields
        segment0_def client0_fields sectorCompletedMemory_claimed2 addEvents_def)
  have c: "cleanupUploadSegment envEncodeFails rndCleanup
      (client0\<lparr>events := [EncodeCall (segmentBytes 4194304 [[1, 2]]), MemoryReturn 8388608]\<rparr>,
          segment0\<lparr>sectorSlotsStatus := [True, True], memoryNeeded := 12582912,
            logicalSegmentData := [[1, 2]], workersRemain := 0, memoryReleased := 8388608\<rparr>)
    = Inr (client0\<lparr>events :=
            [EncodeCall (segmentBytes 4194304 [[1, 2]]), MemoryReturn 8388608,
             SetStuckByIndex 0 True, InitAndUpdateDirMetadata, FileEntryClose,
             PendingDelete \<lparr>fid = 1, index = 0\<rparr>, LogMemoryNotReleased]\<rparr>,
          segment0\<lparr>sectorSlotsStatus := [True, True], memoryNeeded := 12582912,
            logicalSegmentData := [[1, 2]], workersRemain := 0, memoryReleased := 8388608,
            released := True\<rparr>)"
    by (simp add: cleanup_all_claimed markReleased_def IsSegmentUploadComplete_def
        finishCleanup_def releaseSegment_def updateUploadSegmentStuckStatus_def repair_2_0
        addEvents_def wrapInt64_def Let_def segment0_def envEncodeFails_fields client0_fields)
  have d: "cleanupUploadSegment envRetrievalFails rndCleanup
      (client0\<lparr>events := [MemoryReturn 12582912]\<rparr>,
          segment0\<lparr>sectorSlotsStatus := [True, True], memoryNeeded := 12582912,
            workersRemain := 0, memoryReleased := 12582912\<rparr>)
    = Inr (client0\<lparr>events :=
            [MemoryReturn 12582912,
             SetStuckByIndex 0 True, InitAndUpdateDirMetadata, FileEntryClose,
             PendingDelete \<lparr>fid = 1, index = 0\<rparr>]\<rparr>,
          segment0\<lparr>sectorSlotsStatus := [True, True], memoryNeeded := 12582912,
            workersRemain := 0, memoryReleased := 12582912, released := True\<rparr>)"
    by (simp add: cleanup_all_claimed markReleased_def IsSegmentUploadComplete_def
        finishCleanup_def releaseSegment_def updateUploadSegmentStuckStatus_def repair_2_0
        addEvents_def wrapInt64_def Let_def segment0_def envRetrievalFails_fields client0_fields)
  have e: "IsSegmentUploadComplete
        (segment0\<lparr>sectorSlotsStatus := [True, True], memoryNeeded := 12582912,
            logicalSegmentData := [[1, 2]], workersRemain := 0, memoryReleased := 8388608,
            released := True\<rparr>)"
    by (simp add: IsSegmentUploadComplete_def segment0_fields)
  have f: "tmAddFails envEncodeFails = False" "tmAddFails envRetrievalFails = False"
    by (simp_all add: envEncodeFails_fields envRetrievalFails_fields)
  show ?thesis
    by (simp only: retrieveDataAndDispatchSegment_def f a b c d e if_False sum.case simp_thms)
qed

end
